theory Spec2Isabelle
  imports Complex_Main "HOL-Library.Multiset"
begin

section \<open>Errors\<close>

text \<open>
  Every \<^verbatim>\<open>throw\<close> of the source is a value of this type. The source throws plain
  \<^verbatim>\<open>Error\<close> objects that differ in their message only; the constructors carry the names
  the specification gives them:
  \<^item> \<open>TableNotFound\<close>: \<^verbatim>\<open>`${req.table} not found`\<close> (query);
  \<^item> \<open>DimensionMismatch\<close>: \<^verbatim>\<open>'Vectors must be of the same length.'\<close> (distance);
  \<^item> \<open>FileNotConfigured\<close>: \<^verbatim>\<open>'Filename not set'\<close> (save, load);
  \<^item> \<open>FileIO\<close>, \<open>ParseError\<close>: what \<^verbatim>\<open>fs.readFileSync\<close> and \<^verbatim>\<open>JSON.parse\<close> throw;
  \<^item> \<open>RangeError\<close>: what the assignment \<^verbatim>\<open>matches.length = n\<close> throws when \<open>n\<close> is not
    an array length.
\<close>

datatype error =
  TableNotFound | DimensionMismatch | FileNotConfigured | FileIO | ParseError | RangeError

section \<open>Numbers\<close>

text \<open>
  The arithmetic of the source's \<^verbatim>\<open>number\<close> type is a parameter of the similarity
  engine: the literals \<^verbatim>\<open>0\<close> and \<^verbatim>\<open>1\<close>, the operators \<^verbatim>\<open>+ - * /\<close>, \<^verbatim>\<open>Math.sqrt\<close> and the
  test \<^verbatim>\<open>x !== 0\<close>. Two instances follow: IEEE 754 binary64 with rounding to nearest,
  ties to even, which is what the source's numbers are and what the store computes
  with, and exact arithmetic on the reals, for comparison.
\<close>

record 'n arith =
  num_zero :: 'n
  num_one :: 'n
  num_add :: "'n \<Rightarrow> 'n \<Rightarrow> 'n"
  num_sub :: "'n \<Rightarrow> 'n \<Rightarrow> 'n"
  num_mul :: "'n \<Rightarrow> 'n \<Rightarrow> 'n"
  num_div :: "'n \<Rightarrow> 'n \<Rightarrow> 'n"
  num_sqrt :: "'n \<Rightarrow> 'n"
  num_nonzero :: "'n \<Rightarrow> bool"

definition exact :: "real arith" where
  "exact = \<lparr>num_zero = 0, num_one = 1, num_add = (+), num_sub = (-), num_mul = (*),
     num_div = (/), num_sqrt = sqrt, num_nonzero = (\<lambda>x. x \<noteq> 0)\<rparr>"

subsection \<open>IEEE 754 binary64\<close>

text \<open>
  A binary64 number is \<^verbatim>\<open>NaN\<close>, an infinity with its sign, or a finite number: a sign
  (\<open>True\<close> for negative) and a magnitude \<open>m \<sqdot> 2\<^sup>e\<close>, kept with \<open>m\<close> odd, or \<open>m = 0\<close> and
  \<open>e = 0\<close> for the two zeros. The numbers of the format are those with \<open>m < 2\<^sup>5\<^sup>3\<close>,
  \<open>- 1074 \<le> e\<close> and \<open>m \<sqdot> 2\<^sup>e < 2\<^sup>1\<^sup>0\<^sup>2\<^sup>4\<close>.
\<close>

datatype f64 = NaN | Inf bool | Fin bool int int

text \<open>The number of binary digits of a positive integer; the odd part of \<open>m \<sqdot> 2\<^sup>e\<close>; the
  integer square root.\<close>

function bit_length :: "int \<Rightarrow> int" where
  "bit_length n = (if n \<le> 0 then 0 else 1 + bit_length (n div 2))"
  by pat_completeness auto
termination
  by (relation "measure nat") auto

function dyadic :: "int \<Rightarrow> int \<Rightarrow> int \<times> int" where
  "dyadic m e = (if m \<le> 0 then (0, 0) else if even m then dyadic (m div 2) (e + 1) else (m, e))"
  by pat_completeness auto
termination
  by (relation "measure (\<lambda>(m, e). nat m)") auto

function isqrt :: "int \<Rightarrow> int" where
  "isqrt n =
     (if n \<le> 0 then 0
      else let r = 2 * isqrt (n div 4) in if (r + 1) * (r + 1) \<le> n then r + 1 else r)"
  by pat_completeness auto
termination
  by (relation "measure nat") auto

text \<open>\<open>2\<^sup>k\<close> for \<open>0 \<le> k\<close>.\<close>

definition pow2 :: "int \<Rightarrow> int" where
  "pow2 k = 2 ^ nat k"

text \<open>The integer nearest to \<open>a / b\<close>, the even one of two that are equally near.\<close>

definition nearest_even :: "int \<Rightarrow> int \<Rightarrow> int" where
  "nearest_even a b =
     (let n = a div b; r = a mod b
      in if 2 * r < b then n else if b < 2 * r then n + 1 else if even n then n else n + 1)"

text \<open>
  The value \<open>(a / b) \<sqdot> 2\<^sup>k\<close>, for positive \<open>a\<close> and \<open>b\<close>, rounded to the format: \<open>l + k\<close> is the
  exponent of its leading bit, \<open>ue\<close> the exponent of the last place of its 53 bits (not
  below that of the subnormal numbers), and a result of \<open>2\<^sup>1\<^sup>0\<^sup>2\<^sup>4\<close> or more is an infinity.
\<close>

definition round_ratio :: "bool \<Rightarrow> int \<Rightarrow> int \<Rightarrow> int \<Rightarrow> f64" where
  "round_ratio s a b k =
     (let d = bit_length a - bit_length b;
          l = (if (if 0 \<le> d then b * pow2 d \<le> a else b \<le> a * pow2 (- d)) then d else d - 1);
          ue = max (l + k - 52) (- 1074);
          sh = k - ue;
          n = (if 0 \<le> sh then nearest_even (a * pow2 sh) b else nearest_even a (b * pow2 (- sh)))
      in if 0 \<le> ue \<and> pow2 1024 \<le> n * pow2 ue then Inf s
         else (case dyadic n ue of (m, e) \<Rightarrow> Fin s m e))"

text \<open>
  The operations: unary minus, \<^verbatim>\<open>+\<close>, \<^verbatim>\<open>*\<close>, \<^verbatim>\<open>/\<close> and \<^verbatim>\<open>Math.sqrt\<close>, each the exact result
  rounded once. An exact sum of zero is \<open>+0\<close>, but \<open>-0\<close> when both summands are \<open>-0\<close>.
\<close>

fun f64_neg :: "f64 \<Rightarrow> f64" where
  "f64_neg NaN = NaN"
| "f64_neg (Inf s) = Inf (\<not> s)"
| "f64_neg (Fin s m e) = Fin (\<not> s) m e"

fun f64_add :: "f64 \<Rightarrow> f64 \<Rightarrow> f64" where
  "f64_add NaN y = NaN"
| "f64_add x NaN = NaN"
| "f64_add (Inf s) (Inf t) = (if s = t then Inf s else NaN)"
| "f64_add (Inf s) (Fin t n f) = Inf s"
| "f64_add (Fin s m e) (Inf t) = Inf t"
| "f64_add (Fin s m e) (Fin t n f) =
     (let g = min e f;
          x = (if s then - m else m) * pow2 (e - g) + (if t then - n else n) * pow2 (f - g)
      in if x = 0 then Fin (s \<and> t) 0 0 else round_ratio (x < 0) \<bar>x\<bar> 1 g)"

fun f64_mul :: "f64 \<Rightarrow> f64 \<Rightarrow> f64" where
  "f64_mul NaN y = NaN"
| "f64_mul x NaN = NaN"
| "f64_mul (Inf s) (Inf t) = Inf (s \<noteq> t)"
| "f64_mul (Inf s) (Fin t n f) = (if n = 0 then NaN else Inf (s \<noteq> t))"
| "f64_mul (Fin s m e) (Inf t) = (if m = 0 then NaN else Inf (s \<noteq> t))"
| "f64_mul (Fin s m e) (Fin t n f) =
     (if m = 0 \<or> n = 0 then Fin (s \<noteq> t) 0 0 else round_ratio (s \<noteq> t) (m * n) 1 (e + f))"

fun f64_div :: "f64 \<Rightarrow> f64 \<Rightarrow> f64" where
  "f64_div NaN y = NaN"
| "f64_div x NaN = NaN"
| "f64_div (Inf s) (Inf t) = NaN"
| "f64_div (Inf s) (Fin t n f) = Inf (s \<noteq> t)"
| "f64_div (Fin s m e) (Inf t) = Fin (s \<noteq> t) 0 0"
| "f64_div (Fin s m e) (Fin t n f) =
     (if n = 0 then (if m = 0 then NaN else Inf (s \<noteq> t))
      else if m = 0 then Fin (s \<noteq> t) 0 0
      else round_ratio (s \<noteq> t) m n (e - f))"

text \<open>
  The square root of \<open>m \<sqdot> 2\<^sup>e\<close>, \<open>m\<close> positive: with the exponent made even, \<open>n\<close> is the
  integer part of the root scaled to 53 bits, and \<open>a\<close> against \<open>b\<close> compares the scaled root
  with \<open>n + 1/2\<close>.
\<close>

definition sqrt_round :: "int \<Rightarrow> int \<Rightarrow> f64" where
  "sqrt_round m e =
     (let m' = (if even e then m else 2 * m);
          h = (if even e then e else e - 1) div 2;
          sh = 52 - (bit_length m' - 1) div 2;
          n = isqrt (if 0 \<le> sh then m' * pow2 (2 * sh) else m' div pow2 (- 2 * sh));
          a = 4 * m' * (if 0 \<le> sh then pow2 (2 * sh) else 1);
          b = (2 * n + 1) * (2 * n + 1) * (if 0 \<le> sh then 1 else pow2 (- 2 * sh));
          n' = (if a < b then n else if b < a then n + 1 else if even n then n else n + 1)
      in case dyadic n' (h - sh) of (m, e) \<Rightarrow> Fin False m e)"

fun f64_sqrt :: "f64 \<Rightarrow> f64" where
  "f64_sqrt NaN = NaN"
| "f64_sqrt (Inf s) = (if s then NaN else Inf False)"
| "f64_sqrt (Fin s m e) = (if m = 0 then Fin s 0 0 else if s then NaN else sqrt_round m e)"

text \<open>\<^verbatim>\<open>x !== 0\<close>: false for both zeros, true for \<^verbatim>\<open>NaN\<close>.\<close>

fun f64_nonzero :: "f64 \<Rightarrow> bool" where
  "f64_nonzero (Fin s m e) = (m \<noteq> 0)"
| "f64_nonzero x = True"

definition binary64 :: "f64 arith" where
  "binary64 =
     \<lparr>num_zero = Fin False 0 0, num_one = Fin False 1 0, num_add = f64_add,
      num_sub = (\<lambda>x y. f64_add x (f64_neg y)), num_mul = f64_mul, num_div = f64_div,
      num_sqrt = f64_sqrt, num_nonzero = f64_nonzero\<rparr>"

text \<open>The integers as binary64 numbers (exact for \<open>\<bar>n\<bar> \<le> 2\<^sup>5\<^sup>3\<close>).\<close>

definition f64_of_int :: "int \<Rightarrow> f64" where
  "f64_of_int n = (if n = 0 then Fin False 0 0 else round_ratio (n < 0) \<bar>n\<bar> 1 0)"

section \<open>Similarity engine\<close>

text \<open>The five variables the loop of \<^verbatim>\<open>distance\<close> updates.\<close>

record 'n loop_state =
  dotProduct :: 'n
  normA :: 'n
  normB :: 'n
  zeroVectorA :: bool
  zeroVectorB :: bool

text \<open>
  \<^verbatim>\<open>for (let i = 0; i < vectorA.length; i++)\<close>: the loop reads \<^verbatim>\<open>vectorA[i]\<close> and
  \<^verbatim>\<open>vectorB[i]\<close> for every index of \<^verbatim>\<open>vectorA\<close>; it runs only when both arrays have the
  same length, so it walks the two lists together.
\<close>

fun distance_loop :: "'n arith \<Rightarrow> 'n list \<Rightarrow> 'n list \<Rightarrow> 'n loop_state \<Rightarrow> 'n loop_state" where
  "distance_loop ar (x # xs) (y # ys) s =
     distance_loop ar xs ys
       \<lparr>dotProduct = num_add ar (dotProduct s) (num_mul ar x y),
        normA = num_add ar (normA s) (num_mul ar x x),
        normB = num_add ar (normB s) (num_mul ar y y),
        zeroVectorA = (if num_nonzero ar x then False else zeroVectorA s),
        zeroVectorB = (if num_nonzero ar y then False else zeroVectorB s)\<rparr>"
| "distance_loop ar _ _ s = s"

definition distance :: "'n arith \<Rightarrow> 'n list \<Rightarrow> 'n list \<Rightarrow> error + 'n" where
  "distance ar a b =
     (if length a \<noteq> length b then Inl DimensionMismatch
      else
        let s = distance_loop ar a b
                  \<lparr>dotProduct = num_zero ar, normA = num_zero ar, normB = num_zero ar,
                   zeroVectorA = True, zeroVectorB = True\<rparr>
        in if zeroVectorA s \<or> zeroVectorB s then Inr (num_one ar)
           else
             let similarity =
                   num_div ar (dotProduct s)
                     (num_mul ar (num_sqrt ar (normA s)) (num_sqrt ar (normB s)))
             in Inr (num_sub ar (num_one ar) similarity))"

subsection \<open>Cosine distance as the specification words it\<close>

text \<open>
  The dot product and the Euclidean norm, summed from the left as the loop does, and the
  formula \<open>1 - dot(a,b) / (\<parallel>a\<parallel> \<sqdot> \<parallel>b\<parallel>)\<close>.
\<close>

definition dot :: "'n arith \<Rightarrow> 'n list \<Rightarrow> 'n list \<Rightarrow> 'n" where
  "dot ar a b = foldl (num_add ar) (num_zero ar) (map2 (num_mul ar) a b)"

definition vec_norm :: "'n arith \<Rightarrow> 'n list \<Rightarrow> 'n" where
  "vec_norm ar a = num_sqrt ar (dot ar a a)"

definition all_zero :: "'n arith \<Rightarrow> 'n list \<Rightarrow> bool" where
  "all_zero ar a = list_all (\<lambda>x. \<not> num_nonzero ar x) a"

definition cosine_distance :: "'n arith \<Rightarrow> 'n list \<Rightarrow> 'n list \<Rightarrow> 'n" where
  "cosine_distance ar a b =
     num_sub ar (num_one ar) (num_div ar (dot ar a b) (num_mul ar (vec_norm ar a) (vec_norm ar b)))"

section \<open>Objects used as dictionaries\<close>

text \<open>
  \<^verbatim>\<open>Record<string, V>\<close>: an object used as a dictionary is the list of its own properties
  in the order \<^verbatim>\<open>Object.entries\<close>, \<^verbatim>\<open>JSON.stringify\<close> and the spread operator enumerate
  them: the keys that are array indices (canonical decimal numerals below \<open>2\<^sup>3\<^sup>2 - 1\<close>) in
  ascending numeric order, then every other key in the order of its creation.
\<close>

type_synonym 'v obj = "(string \<times> 'v) list"

definition digit :: "char \<Rightarrow> nat option" where
  "digit c = (let n = (of_char c :: nat) in if 48 \<le> n \<and> n \<le> 57 then Some (n - 48) else None)"

fun decimal :: "string \<Rightarrow> nat \<Rightarrow> nat option" where
  "decimal [] acc = Some acc"
| "decimal (c # cs) acc =
     (case digit c of None \<Rightarrow> None | Some d \<Rightarrow> decimal cs (10 * acc + d))"

definition array_index :: "string \<Rightarrow> nat option" where
  "array_index k =
     (case k of
        [] \<Rightarrow> None
      | c # cs \<Rightarrow>
          if c = CHR ''0'' \<and> cs \<noteq> [] then None
          else (case decimal k 0 of
                  None \<Rightarrow> None
                | Some n \<Rightarrow> if n < 2 ^ 32 - 1 then Some n else None))"

text \<open>\<^verbatim>\<open>ob[k] = v\<close> on a key the object has: the value changes, the position stays.\<close>

fun replace :: "string \<Rightarrow> 'v \<Rightarrow> 'v obj \<Rightarrow> 'v obj" where
  "replace k v [] = []"
| "replace k v ((k', v') # es) =
     (if k' = k then (k, v) # es else (k', v') # replace k v es)"

text \<open>
  A new array index \<open>n\<close> goes behind the array indices up to \<open>n\<close> and before everything
  else. (Two different keys never denote the same index, so \<open>m \<le> n\<close> only ever holds
  as \<open>m < n\<close> here.)
\<close>

definition index_upto :: "nat \<Rightarrow> string \<times> 'v \<Rightarrow> bool" where
  "index_upto n e = (case array_index (fst e) of None \<Rightarrow> False | Some m \<Rightarrow> m \<le> n)"

definition insert_index :: "nat \<Rightarrow> string \<Rightarrow> 'v \<Rightarrow> 'v obj \<Rightarrow> 'v obj" where
  "insert_index n k v ob =
     takeWhile (index_upto n) ob @ (k, v) # dropWhile (index_upto n) ob"

text \<open>
  \<^verbatim>\<open>ob[k] = v\<close> as the definition of an own property (what \<^verbatim>\<open>JSON.parse\<close> and the spread
  do for every key, and what an assignment does for every key but \<^verbatim>\<open>__proto__\<close>).
\<close>

definition put :: "string \<Rightarrow> 'v \<Rightarrow> 'v obj \<Rightarrow> 'v obj" where
  "put k v ob =
     (case map_of ob k of
        Some _ \<Rightarrow> replace k v ob
      | None \<Rightarrow>
          (case array_index k of
             Some n \<Rightarrow> insert_index n k v ob
           | None \<Rightarrow> ob @ [(k, v)]))"

text \<open>
  An object built from a sequence of key-value pairs, each assigned in turn: what
  \<^verbatim>\<open>JSON.parse\<close> does with the members of an object literal, and what the spread
  \<^verbatim>\<open>{...a, ...b}\<close> does with the properties of \<open>a\<close> followed by those of \<open>b\<close>.
\<close>

definition from_entries :: "(string \<times> 'v) list \<Rightarrow> 'v obj" where
  "from_entries es = foldl (\<lambda>ob (k, v). put k v ob) [] es"

definition spread :: "'v obj \<Rightarrow> 'v obj \<Rightarrow> 'v obj" where
  "spread a b = from_entries (a @ b)"

text \<open>
  The order of the keys of an object: array indices first and ascending, then the rest;
  no key twice. Every object of a running program is in this form.
\<close>

definition key_before :: "string \<Rightarrow> string \<Rightarrow> bool" where
  "key_before k k' =
     (case array_index k of
        None \<Rightarrow> array_index k' = None
      | Some n \<Rightarrow> (case array_index k' of None \<Rightarrow> True | Some m \<Rightarrow> n \<le> m))"

definition canonical :: "'v obj \<Rightarrow> bool" where
  "canonical ob = (distinct (map fst ob) \<and> sorted_wrt key_before (map fst ob))"

text \<open>\<^verbatim>\<open>if (x)\<close> on an optional string: \<^verbatim>\<open>undefined\<close> and the empty string are falsy.\<close>

fun truthy :: "string option \<Rightarrow> bool" where
  "truthy None = False"
| "truthy (Some []) = False"
| "truthy (Some (c # cs)) = True"

section \<open>The prototype chain\<close>

text \<open>
  Every object of the store is created by \<^verbatim>\<open>{}\<close>, by a spread or by \<^verbatim>\<open>JSON.parse\<close>, so
  its prototype is \<^verbatim>\<open>Object.prototype\<close>, and a property read \<^verbatim>\<open>ob[k]\<close> that finds no own
  property goes on to the properties of \<^verbatim>\<open>Object.prototype\<close>: its methods, and the
  accessor \<^verbatim>\<open>__proto__\<close>, which gives \<^verbatim>\<open>Object.prototype\<close> itself. All of them are truthy.
\<close>

definition proto_names :: "string list" where
  "proto_names =
     [''constructor'', ''__defineGetter__'', ''__defineSetter__'', ''hasOwnProperty'',
      ''__lookupGetter__'', ''__lookupSetter__'', ''isPrototypeOf'', ''propertyIsEnumerable'',
      ''toString'', ''valueOf'', ''__proto__'', ''toLocaleString'']"

datatype 'v property = Own 'v | Inherited | Missing

text \<open>\<^verbatim>\<open>ob[k]\<close>: the own property, else a built-in object, else \<^verbatim>\<open>undefined\<close>.\<close>

definition get_property :: "'v obj \<Rightarrow> string \<Rightarrow> 'v property" where
  "get_property ob k =
     (case map_of ob k of
        Some v \<Rightarrow> Own v
      | None \<Rightarrow> if k \<in> set proto_names then Inherited else Missing)"

text \<open>
  The assignment \<^verbatim>\<open>ob[k] = v\<close> of an object \<open>v\<close>. On the key \<^verbatim>\<open>__proto__\<close>, unless the
  object has an own property of that name, it calls the setter of \<^verbatim>\<open>Object.prototype\<close>,
  which makes \<open>v\<close> the prototype of \<open>ob\<close> and adds no property; as the program reads a
  table through \<^verbatim>\<open>Object.entries\<close> only, the new prototype of a table is never seen.
  On every other key it defines or updates the own property (the methods of
  \<^verbatim>\<open>Object.prototype\<close> are writable data properties). The objects assigned are plain
  extensible records.
\<close>

definition assign :: "string \<Rightarrow> 'v \<Rightarrow> 'v obj \<Rightarrow> 'v obj" where
  "assign k v ob = (if k = ''__proto__'' \<and> map_of ob k = None then ob else put k v ob)"

section \<open>Sorting an array\<close>

text \<open>
  \<^verbatim>\<open>Array.prototype.sort\<close> with a comparator, as the engine of Node does it for an array
  of fewer than 64 elements: the leading run is found (and reversed when it descends
  strictly), then each further element is put in its place by binary search. The
  comparator enters through \<open>lt x y\<close>, which says that its result on \<open>x\<close> and \<open>y\<close> is
  negative; a result of \<^verbatim>\<open>NaN\<close> counts as \<open>0\<close>. The sort is stable. With 64 elements or
  more the engine merges several such runs, which gives the same array whenever the
  comparator orders the elements consistently.
\<close>

fun extend_run :: "('a \<Rightarrow> 'a \<Rightarrow> bool) \<Rightarrow> bool \<Rightarrow> 'a \<Rightarrow> 'a list \<Rightarrow> 'a list \<times> 'a list" where
  "extend_run lt descending previous [] = ([], [])"
| "extend_run lt descending previous (x # xs) =
     (if lt x previous = descending
      then (case extend_run lt descending x xs of (run, rest) \<Rightarrow> (x # run, rest))
      else ([], x # xs))"

definition count_and_make_run :: "('a \<Rightarrow> 'a \<Rightarrow> bool) \<Rightarrow> 'a list \<Rightarrow> 'a list \<times> 'a list" where
  "count_and_make_run lt xs =
     (case xs of
        x0 # x1 # ys \<Rightarrow>
          (let descending = lt x1 x0 in
           case extend_run lt descending x1 ys of
             (run, rest) \<Rightarrow>
               (if descending then rev (x0 # x1 # run) else x0 # x1 # run, rest))
      | _ \<Rightarrow> (xs, []))"

function insertion_point :: "('a \<Rightarrow> 'a \<Rightarrow> bool) \<Rightarrow> 'a \<Rightarrow> 'a list \<Rightarrow> nat \<Rightarrow> nat \<Rightarrow> nat" where
  "insertion_point lt pivot work left right =
     (if left < right
      then (let mid = left + (right - left) div 2
            in if lt pivot (work ! mid) then insertion_point lt pivot work left mid
               else insertion_point lt pivot work (mid + 1) right)
      else left)"
  by pat_completeness auto
termination
  by (relation "measure (\<lambda>(lt, pivot, work, left, right). right - left)") auto

declare insertion_point.simps [simp del]

definition binary_insert :: "('a \<Rightarrow> 'a \<Rightarrow> bool) \<Rightarrow> 'a list \<Rightarrow> 'a \<Rightarrow> 'a list" where
  "binary_insert lt work pivot =
     (let left = insertion_point lt pivot work 0 (length work)
      in take left work @ pivot # drop left work)"

definition js_sort :: "('a \<Rightarrow> 'a \<Rightarrow> bool) \<Rightarrow> 'a list \<Rightarrow> 'a list" where
  "js_sort lt xs =
     (case count_and_make_run lt xs of (run, rest) \<Rightarrow> foldl (binary_insert lt) run rest)"

section \<open>Data model\<close>

text \<open>
  Modelled from the spec: the declarations of \<^verbatim>\<open>./types.js\<close> (\<^verbatim>\<open>DBUpsertRequest\<close>,
  \<^verbatim>\<open>DBQueryRequest\<close>, \<^verbatim>\<open>DBQueryResponse\<close>, \<^verbatim>\<open>DBUpsertResponse\<close>) are not among the sources.
  A record serializes as \<^verbatim>\<open>{id, table, values?, metadata?}\<close>; a query is
  \<^verbatim>\<open>{table, values, limit?}\<close>, where the source tests \<^verbatim>\<open>req.values\<close> before it uses it,
  so the field is optional here; a match is \<^verbatim>\<open>{id, score, metadata}\<close>. The numbers are
  binary64 numbers. The metadata is opaque to the store: its type is a parameter, and
  it is taken to be data that \<^verbatim>\<open>JSON.stringify\<close> writes and \<^verbatim>\<open>JSON.parse\<close> reads back
  unchanged (strings, booleans, \<^verbatim>\<open>null\<close>, and arrays and plain objects of these); metadata
  that \<^verbatim>\<open>JSON.stringify\<close> alters or refuses is outside the model. An optional field is an \<open>option\<close>, \<open>None\<close> for \<^verbatim>\<open>undefined\<close>. The limit is
  an integer (a count of results).
\<close>

record 'm upsert_request =
  u_id :: string
  u_table :: string
  u_values :: "f64 list option"
  u_metadata :: "'m option"

record query_request =
  q_table :: string
  q_values :: "f64 list option"
  q_limit :: "int option"

record 'm db_match =
  m_id :: string
  m_score :: f64
  m_metadata :: "'m option"

text \<open>
  A file holds a text. What the store reads of it is whether \<^verbatim>\<open>JSON.parse\<close> accepts it
  and, when it does, the members of the outer object (table name and table) and of
  each table (record id and record) in the order of the text, which is how
  \<^verbatim>\<open>JSON.stringify\<close> wrote them. A text that parses to something else than such an object
  is outside the model.
\<close>

datatype 'm file_text = Unparseable | Snapshot "(string \<times> (string \<times> 'm upsert_request) list) list"

text \<open>
  The state: the two private fields of the class \<^verbatim>\<open>MemoryDB\<close>, and the file system the
  module \<^verbatim>\<open>node:fs\<close> gives access to (a file name is present when the file exists). The
  built-in objects (\<^verbatim>\<open>Object.prototype\<close> and its methods) are not part of the state: every
  operation finds them as the engine provides them. What an operation writes on one of
  them, and what a later operation would read back from it, is outside the model.
\<close>

record 'm memory_db =
  memoryDB :: "'m upsert_request obj obj"
  filename :: "string option"
  fs :: "string \<rightharpoonup> 'm file_text"

section \<open>Persistence manager\<close>

text \<open>
  What \<^verbatim>\<open>JSON.stringify\<close> writes of a number and \<^verbatim>\<open>JSON.parse\<close> reads back: \<^verbatim>\<open>NaN\<close> and
  the infinities are written as \<^verbatim>\<open>null\<close>, and \<open>-0\<close> as \<^verbatim>\<open>0\<close>; every other number is written
  with digits that read back as the same number. The only reader of a vector is
  \<^verbatim>\<open>new Float64Array\<close> in \<^verbatim>\<open>distance\<close>, which reads \<^verbatim>\<open>null\<close> as \<open>+0\<close>, so a \<^verbatim>\<open>null\<close> of a vector
  is kept as \<open>+0\<close>.
\<close>

fun json_number :: "f64 \<Rightarrow> f64" where
  "json_number NaN = Fin False 0 0"
| "json_number (Inf s) = Fin False 0 0"
| "json_number (Fin s m e) = (if m = 0 then Fin False 0 0 else Fin s m e)"

definition json_record :: "'m upsert_request \<Rightarrow> 'm upsert_request" where
  "json_record r = r\<lparr>u_values := map_option (map json_number) (u_values r)\<rparr>"

text \<open>\<^verbatim>\<open>JSON.stringify(this.memoryDB)\<close>: the own properties of the store and of its tables.\<close>

definition json_image ::
  "'m upsert_request obj obj \<Rightarrow> (string \<times> (string \<times> 'm upsert_request) list) list" where
  "json_image db = map (\<lambda>(t, tbl). (t, map (\<lambda>(k, r). (k, json_record r)) tbl)) db"

text \<open>
  \<^verbatim>\<open>save = async (fn = this.filename)\<close>: the default applies when no argument is passed.
  \<^verbatim>\<open>fs.writeFileSync\<close> is taken to succeed.
\<close>

definition save :: "'m memory_db \<Rightarrow> string option \<Rightarrow> error + 'm memory_db" where
  "save s arg =
     (let fn = (case arg of None \<Rightarrow> filename s | Some f \<Rightarrow> Some f) in
      case fn of
        None \<Rightarrow> Inl FileNotConfigured
      | Some f \<Rightarrow>
          if \<not> truthy fn then Inl FileNotConfigured
          else Inr (s\<lparr>fs := (fs s)(f \<mapsto> Snapshot (json_image (memoryDB s)))\<rparr>))"

text \<open>\<^verbatim>\<open>JSON.parse\<close> on the text of a snapshot: every object is built member by member.\<close>

definition parse_snapshot ::
  "(string \<times> (string \<times> 'm upsert_request) list) list \<Rightarrow> 'm upsert_request obj obj" where
  "parse_snapshot img = from_entries (map (\<lambda>(t, recs). (t, from_entries recs)) img)"

definition load :: "'m memory_db \<Rightarrow> string option \<Rightarrow> error + 'm memory_db" where
  "load s arg =
     (let fn = (case arg of None \<Rightarrow> filename s | Some f \<Rightarrow> Some f) in
      case fn of
        None \<Rightarrow> Inl FileNotConfigured
      | Some f \<Rightarrow>
          if \<not> truthy fn then Inl FileNotConfigured
          else (case fs s f of
                  None \<Rightarrow> Inl FileIO
                | Some Unparseable \<Rightarrow> Inl ParseError
                | Some (Snapshot img) \<Rightarrow>
                    Inr (s\<lparr>memoryDB := spread (memoryDB s) (parse_snapshot img)\<rparr>)))"

text \<open>
  The constructor. It calls \<^verbatim>\<open>this.load()\<close> without awaiting it: the body of \<^verbatim>\<open>load\<close> has
  no \<^verbatim>\<open>await\<close>, so it has run when the call returns, and what it throws rejects a
  promise the constructor drops.
\<close>

definition new_MemoryDB :: "string option \<Rightarrow> (string \<rightharpoonup> 'm file_text) \<Rightarrow> 'm memory_db" where
  "new_MemoryDB arg files =
     (let s = \<lparr>memoryDB = [], filename = arg, fs = files\<rparr> in
      case arg of
        None \<Rightarrow> s
      | Some f \<Rightarrow>
          if truthy arg \<and> files f \<noteq> None
          then (case load s None of Inl e \<Rightarrow> s | Inr s' \<Rightarrow> s')
          else s)"

section \<open>Record store\<close>

text \<open>
  \<^verbatim>\<open>upsert\<close> returns the response \<^verbatim>\<open>{ ids: [req.id] }\<close> and the state it leaves. Its second
  parameter \<^verbatim>\<open>_update\<close> is never read. \<^verbatim>\<open>if (!this.memoryDB[req.table])\<close> creates the table
  when the read finds nothing, own or inherited. \<^verbatim>\<open>this.memoryDB[req.table][req.id] = req\<close>
  then assigns to what the read finds. That is the table when the store has one of the
  name. For a table name that \<^verbatim>\<open>Object.prototype\<close> has and the store has not, it is a
  built-in object: no table is created and the store stays as it is (the assignment
  itself, on a method of \<^verbatim>\<open>Object.prototype\<close> or on \<^verbatim>\<open>Object.prototype\<close>, is not part of the
  state).
\<close>

definition upsert ::
  "'m memory_db \<Rightarrow> 'm upsert_request \<Rightarrow> error + (string list \<times> 'm memory_db)" where
  "upsert s req =
     (let db1 = (case get_property (memoryDB s) (u_table req) of
                   Missing \<Rightarrow> put (u_table req) [] (memoryDB s)
                 | _ \<Rightarrow> memoryDB s);
          db2 = (case get_property db1 (u_table req) of
                   Own table \<Rightarrow> put (u_table req) (assign (u_id req) req table) db1
                 | _ \<Rightarrow> db1);
          s1 = s\<lparr>memoryDB := db2\<rparr>
      in if truthy (filename s1)
         then (case save s1 None of Inl e \<Rightarrow> Inl e | Inr s2 \<Rightarrow> Inr ([u_id req], s2))
         else Inr ([u_id req], s1))"

text \<open>\<^verbatim>\<open>for (const req of batchReq)\<close>, with the list \<^verbatim>\<open>ids\<close> the loop extends.\<close>

fun batch_loop ::
  "'m memory_db \<Rightarrow> 'm upsert_request list \<Rightarrow> string list \<Rightarrow> error + (string list \<times> 'm memory_db)"
  where
  "batch_loop s [] ids = Inr (ids, s)"
| "batch_loop s (req # reqs) ids =
     (case upsert s req of
        Inl e \<Rightarrow> Inl e
      | Inr (res, s') \<Rightarrow> batch_loop s' reqs (ids @ res))"

definition batchUpsert ::
  "'m memory_db \<Rightarrow> 'm upsert_request list \<Rightarrow> error + (string list \<times> 'm memory_db)" where
  "batchUpsert s batchReq =
     (case batch_loop s batchReq [] of
        Inl e \<Rightarrow> Inl e
      | Inr (ids, s1) \<Rightarrow>
          if truthy (filename s1)
          then (case save s1 None of Inl e \<Rightarrow> Inl e | Inr s2 \<Rightarrow> Inr (ids, s2))
          else Inr (ids, s1))"

section \<open>Query executor\<close>

text \<open>
  \<^verbatim>\<open>Object.entries(table).forEach\<close>: a record takes part when the query and the record
  both have \<^verbatim>\<open>values\<close> (an array is truthy, also the empty one); what \<^verbatim>\<open>distance\<close> throws
  ends the loop and the query.
\<close>

fun scan ::
  "f64 list option \<Rightarrow> (string \<times> 'm upsert_request) list \<Rightarrow> 'm db_match list \<Rightarrow>
     error + 'm db_match list" where
  "scan qv [] matches = Inr matches"
| "scan qv ((rid, data) # es) matches =
     (case qv of
        None \<Rightarrow> scan qv es matches
      | Some q \<Rightarrow>
          (case u_values data of
             None \<Rightarrow> scan qv es matches
           | Some v \<Rightarrow>
               (case distance binary64 q v of
                  Inl e \<Rightarrow> Inl e
                | Inr score \<Rightarrow>
                    scan qv es
                      (matches @ [\<lparr>m_id = rid, m_score = score, m_metadata = u_metadata data\<rparr>]))))"

text \<open>
  \<^verbatim>\<open>matches.length = n\<close>. An array is the list of its slots; a slot is \<open>None\<close> when it
  is empty (reading it gives \<^verbatim>\<open>undefined\<close>). A smaller length drops the slots behind
  it, a larger one adds empty slots, and a value that is not an array length is a
  \<^verbatim>\<open>RangeError\<close>.
\<close>

definition set_length :: "int \<Rightarrow> 'a option list \<Rightarrow> error + 'a option list" where
  "set_length n slots =
     (if n < 0 \<or> 2 ^ 32 - 1 < n then Inl RangeError
      else if nat n \<le> length slots then Inr (take (nat n) slots)
      else Inr (slots @ replicate (nat n - length slots) None))"

text \<open>\<^verbatim>\<open>x < 0\<close> on a number: false for both zeros and for \<^verbatim>\<open>NaN\<close>.\<close>

fun f64_negative :: "f64 \<Rightarrow> bool" where
  "f64_negative NaN = False"
| "f64_negative (Inf s) = s"
| "f64_negative (Fin s m e) = (s \<and> m \<noteq> 0)"

text \<open>The comparator \<^verbatim>\<open>(a, b) => a.score - b.score\<close> gives a negative number.\<close>

definition score_before :: "'m db_match \<Rightarrow> 'm db_match \<Rightarrow> bool" where
  "score_before a b = f64_negative (f64_add (m_score a) (f64_neg (m_score b)))"

text \<open>
  \<^verbatim>\<open>const table = this.memoryDB[req.table]; if (!table) throw\<close>: the read goes through the
  prototype chain, and a built-in object it finds there is truthy and, as the engine
  provides it, has no enumerable property of its own, so that \<^verbatim>\<open>Object.entries\<close> gives
  nothing. \<^verbatim>\<open>if (req.limit)\<close>: a limit that is absent or \<open>0\<close> is falsy.
\<close>

definition query :: "'m memory_db \<Rightarrow> query_request \<Rightarrow> error + 'm db_match option list" where
  "query s req =
     (case (case get_property (memoryDB s) (q_table req) of
              Missing \<Rightarrow> Inl TableNotFound
            | Inherited \<Rightarrow> Inr []
            | Own table \<Rightarrow> Inr table) of
        Inl e \<Rightarrow> Inl e
      | Inr entries \<Rightarrow>
          (case scan (q_values req) entries [] of
             Inl e \<Rightarrow> Inl e
           | Inr matches \<Rightarrow>
               (let sorted_matches = map Some (js_sort score_before matches) in
                case q_limit req of
                  None \<Rightarrow> Inr sorted_matches
                | Some n \<Rightarrow> if n \<noteq> 0 then set_length n sorted_matches else Inr sorted_matches)))"

section \<open>Notions the claims are stated with\<close>

text \<open>
  A state is well formed when the store and each of its tables list their keys the way
  an object does. The constructor gives such a state and every operation keeps it.
\<close>

definition well_formed :: "'m memory_db \<Rightarrow> bool" where
  "well_formed s = (canonical (memoryDB s) \<and> list_all (\<lambda>(t, tbl). canonical tbl) (memoryDB s))"

text \<open>The table of a name, empty when the store has none.\<close>

definition table_of :: "'v obj obj \<Rightarrow> string \<Rightarrow> 'v obj" where
  "table_of db t = (case map_of db t of None \<Rightarrow> [] | Some tbl \<Rightarrow> tbl)"

text \<open>
  What \<open>upsert\<close> makes of the store: the record is assigned under its id in its table,
  unless the table name is one that only \<^verbatim>\<open>Object.prototype\<close> has.
\<close>

definition upsert_db :: "'m upsert_request obj obj \<Rightarrow> 'm upsert_request \<Rightarrow> 'm upsert_request obj obj"
  where
  "upsert_db db req =
     (case get_property db (u_table req) of
        Inherited \<Rightarrow> db
      | _ \<Rightarrow> put (u_table req) (assign (u_id req) req (table_of db (u_table req))) db)"

text \<open>Write-through: the snapshot is written when a file name is configured.\<close>

definition write_through :: "'m memory_db \<Rightarrow> 'm memory_db" where
  "write_through s =
     (case filename s of
        None \<Rightarrow> s
      | Some f \<Rightarrow>
          if truthy (filename s) then s\<lparr>fs := (fs s)(f \<mapsto> Snapshot (json_image (memoryDB s)))\<rparr>
          else s)"

text \<open>Sequential \<open>upsert(r1) \<dots> upsert(rn)\<close>, the responses dropped.\<close>

fun upsert_each :: "'m memory_db \<Rightarrow> 'm upsert_request list \<Rightarrow> error + 'm memory_db" where
  "upsert_each s [] = Inr s"
| "upsert_each s (req # reqs) =
     (case upsert s req of Inl e \<Rightarrow> Inl e | Inr (res, s') \<Rightarrow> upsert_each s' reqs)"

text \<open>
  The eligible records of a table are those that have \<open>values\<close>; the match of an eligible
  record carries its key, its cosine distance to the query vector and its metadata. A
  table conforms to a query vector when every eligible record has the vector's length.
\<close>

definition eligible :: "'m upsert_request obj \<Rightarrow> 'm upsert_request obj" where
  "eligible tbl = filter (\<lambda>(rid, data). u_values data \<noteq> None) tbl"

definition score :: "f64 list \<Rightarrow> f64 list \<Rightarrow> f64" where
  "score q v =
     (if all_zero binary64 q \<or> all_zero binary64 v then Fin False 1 0
      else cosine_distance binary64 q v)"

definition expected_match :: "f64 list \<Rightarrow> string \<times> 'm upsert_request \<Rightarrow> 'm db_match" where
  "expected_match q e =
     \<lparr>m_id = fst e,
      m_score = score q (case u_values (snd e) of None \<Rightarrow> [] | Some v \<Rightarrow> v),
      m_metadata = u_metadata (snd e)\<rparr>"

definition conforming :: "f64 list \<Rightarrow> 'm upsert_request obj \<Rightarrow> bool" where
  "conforming q tbl =
     list_all (\<lambda>(rid, data). case u_values data of None \<Rightarrow> True | Some v \<Rightarrow> length v = length q) tbl"

text \<open>A query against the store that a fresh instance loads from what \<open>s\<close> saves.\<close>

definition query_reloaded :: "'m memory_db \<Rightarrow> string \<Rightarrow> query_request \<Rightarrow> error + 'm db_match option list"
  where
  "query_reloaded s path req =
     (case save s (Some path) of
        Inl e \<Rightarrow> Inl e
      | Inr s1 \<Rightarrow>
          (case load (new_MemoryDB None (fs s1)) (Some path) of
             Inl e \<Rightarrow> Inl e
           | Inr s2 \<Rightarrow> query s2 req))"

section \<open>Example data\<close>

text \<open>
  The stores, the records and the queries the theorems are run on. The numbers are
  \<open>0 = Fin False 0 0\<close>, \<open>1 = Fin False 1 0\<close>, \<open>-1 = Fin True 1 0\<close>, \<open>2 = Fin False 1 1\<close> and
  \<open>2\<^sup>-\<^sup>6\<^sup>0\<^sup>0 = Fin False 1 (- 600)\<close>.
\<close>

definition empty_store :: "string memory_db" where
  "empty_store = \<lparr>memoryDB = [], filename = None, fs = Map.empty\<rparr>"

definition rec_a1 :: "string upsert_request" where
  "rec_a1 = \<lparr>u_id = ''a'', u_table = ''docs'', u_values = Some [Fin False 0 0, Fin False 1 0],
     u_metadata = None\<rparr>"

definition rec_a :: "string upsert_request" where
  "rec_a = \<lparr>u_id = ''a'', u_table = ''docs'', u_values = Some [Fin False 1 0, Fin False 0 0],
     u_metadata = Some ''x''\<rparr>"

definition rec_b :: "string upsert_request" where
  "rec_b = \<lparr>u_id = ''b'', u_table = ''docs'', u_values = Some [Fin False 0 0, Fin False 1 0],
     u_metadata = None\<rparr>"

definition rec_c :: "string upsert_request" where
  "rec_c = \<lparr>u_id = ''c'', u_table = ''docs'', u_values = None, u_metadata = Some ''y''\<rparr>"

definition rec_d :: "string upsert_request" where
  "rec_d = \<lparr>u_id = ''d'', u_table = ''docs'',
     u_values = Some [Fin False 1 0, Fin False 0 0, Fin False 0 0], u_metadata = None\<rparr>"

definition docs_store :: "string memory_db" where
  "docs_store =
     \<lparr>memoryDB = [(''docs'', [(''a'', rec_a), (''b'', rec_b), (''c'', rec_c)])],
      filename = None, fs = Map.empty\<rparr>"

definition rec_n :: "string upsert_request" where
  "rec_n = \<lparr>u_id = ''n'', u_table = ''notes'', u_values = Some [Fin False 1 0], u_metadata = None\<rparr>"

definition two_tables :: "string memory_db" where
  "two_tables =
     \<lparr>memoryDB = [(''docs'', [(''a'', rec_a), (''b'', rec_b)]), (''notes'', [(''n'', rec_n)])],
      filename = None,
      fs = [''snap.json'' \<mapsto> Snapshot [(''docs'', [(''d'', rec_d)])]]\<rparr>"

definition docs_query :: "int option \<Rightarrow> query_request" where
  "docs_query limit =
     \<lparr>q_table = ''docs'', q_values = Some [Fin False 1 0, Fin False 0 0], q_limit = limit\<rparr>"

definition match_a :: "string db_match" where
  "match_a = \<lparr>m_id = ''a'', m_score = Fin False 0 0, m_metadata = Some ''x''\<rparr>"

definition match_b :: "string db_match" where
  "match_b = \<lparr>m_id = ''b'', m_score = Fin False 1 0, m_metadata = None\<rparr>"


text \<open>Three records at the distances \<open>2\<close>, \<^verbatim>\<open>NaN\<close> and \<open>0\<close> from the vector \<open>[1, 0]\<close>.\<close>

definition rec_far :: "string upsert_request" where
  "rec_far = \<lparr>u_id = ''far'', u_table = ''docs'', u_values = Some [Fin True 1 0, Fin False 0 0],
     u_metadata = None\<rparr>"

definition rec_tiny :: "string upsert_request" where
  "rec_tiny = \<lparr>u_id = ''tiny'', u_table = ''docs'',
     u_values = Some [Fin False 0 0, Fin False 1 (- 600)], u_metadata = None\<rparr>"

definition rec_near :: "string upsert_request" where
  "rec_near = \<lparr>u_id = ''near'', u_table = ''docs'', u_values = Some [Fin False 1 0, Fin False 0 0],
     u_metadata = None\<rparr>"

definition tiny_store :: "string memory_db" where
  "tiny_store =
     \<lparr>memoryDB = [(''docs'', [(''far'', rec_far), (''tiny'', rec_tiny), (''near'', rec_near)])],
      filename = None, fs = Map.empty\<rparr>"

text \<open>A query for a table name that \<^verbatim>\<open>Object.prototype\<close> has.\<close>

definition toString_query :: query_request where
  "toString_query =
     \<lparr>q_table = ''toString'', q_values = Some [Fin False 1 0, Fin False 0 0], q_limit = None\<rparr>"

text \<open>Two records with the id \<^verbatim>\<open>__proto__\<close>.\<close>

definition rec_p1 :: "string upsert_request" where
  "rec_p1 = \<lparr>u_id = ''__proto__'', u_table = ''docs'',
     u_values = Some [Fin False 0 0, Fin False 1 0], u_metadata = None\<rparr>"

definition rec_p2 :: "string upsert_request" where
  "rec_p2 = \<lparr>u_id = ''__proto__'', u_table = ''docs'',
     u_values = Some [Fin False 1 0, Fin False 0 0], u_metadata = Some ''x''\<rparr>"

definition docs_only :: "string memory_db" where
  "docs_only = \<lparr>memoryDB = [(''docs'', [])], filename = None, fs = Map.empty\<rparr>"

text \<open>A record with the vector \<open>[Infinity, 1]\<close>, and a query with the vector \<open>[1, 1]\<close>.\<close>

definition rec_inf :: "string upsert_request" where
  "rec_inf = \<lparr>u_id = ''i'', u_table = ''docs'', u_values = Some [Inf False, Fin False 1 0],
     u_metadata = None\<rparr>"

definition inf_store :: "string memory_db" where
  "inf_store = \<lparr>memoryDB = [(''docs'', [(''i'', rec_inf)])], filename = None, fs = Map.empty\<rparr>"

definition ones_query :: query_request where
  "ones_query =
     \<lparr>q_table = ''docs'', q_values = Some [Fin False 1 0, Fin False 1 0], q_limit = None\<rparr>"

section \<open>The loop computes the dot product, the norms and the zero tests\<close>

lemma distance_loop_fields:
  "length a = length b \<Longrightarrow>
   distance_loop ar a b s =
     \<lparr>dotProduct = foldl (num_add ar) (dotProduct s) (map2 (num_mul ar) a b),
      normA = foldl (num_add ar) (normA s) (map2 (num_mul ar) a a),
      normB = foldl (num_add ar) (normB s) (map2 (num_mul ar) b b),
      zeroVectorA = (zeroVectorA s \<and> all_zero ar a),
      zeroVectorB = (zeroVectorB s \<and> all_zero ar b)\<rparr>"
proof (induction a b arbitrary: s rule: list_induct2)
  case Nil
  show ?case by (simp add: all_zero_def)
next
  case (Cons x xs y ys)
  show ?case
    by (simp add: Cons.IH all_zero_def)
qed

lemma distance_eq:
  "length a = length b \<Longrightarrow>
   distance ar a b =
     Inr (if all_zero ar a \<or> all_zero ar b then num_one ar else cosine_distance ar a b)"
  by (simp add: distance_def distance_loop_fields cosine_distance_def vec_norm_def dot_def Let_def)

section \<open>Exact arithmetic\<close>

lemma exact_simps [simp]:
  "num_zero exact = 0" "num_one exact = 1" "num_add exact = (+)" "num_sub exact = (-)"
  "num_mul exact = (*)" "num_div exact = (/)" "num_sqrt exact = sqrt"
  "num_nonzero exact x = (x \<noteq> 0)"
  by (simp_all add: exact_def)

lemma foldl_add_real: "foldl (+) (s::real) xs = s + sum_list xs"
  by (induction xs arbitrary: s) simp_all

lemma dot_exact: "dot exact a b = (\<Sum>(x, y)\<leftarrow>zip a b. x * y)"
  by (simp add: dot_def foldl_add_real)

lemma dot_exact_self: "dot exact a a = (\<Sum>x\<leftarrow>a. x\<^sup>2)"
  by (simp add: dot_exact zip_same_conv_map comp_def power2_eq_square)

lemma all_zero_exact: "all_zero exact a = (\<forall>x\<in>set a. x = 0)"
  by (simp add: all_zero_def list_all_iff)

lemma sum_squares_nonneg: "0 \<le> (\<Sum>x\<leftarrow>a. (x::real)\<^sup>2)"
  by (induction a) simp_all

lemma sum_squares_eq_0: "(\<Sum>x\<leftarrow>a. (x::real)\<^sup>2) = 0 \<longleftrightarrow> (\<forall>x\<in>set a. x = 0)"
  by (induction a) (simp_all add: sum_squares_nonneg add_nonneg_eq_0_iff)

lemma vec_norm_exact: "vec_norm exact a = sqrt (\<Sum>x\<leftarrow>a. x\<^sup>2)"
  by (simp add: vec_norm_def dot_exact_self)

lemma vec_norm_exact_eq_0: "vec_norm exact a = 0 \<longleftrightarrow> all_zero exact a"
  by (simp add: vec_norm_exact sum_squares_eq_0 all_zero_exact)

lemma vec_norm_exact_nonneg: "0 \<le> vec_norm exact a"
  by (simp add: vec_norm_exact sum_squares_nonneg)

section \<open>Objects: assignment, lookup and key order\<close>

lemma map_fst_replace: "map fst (replace k v ob) = map fst ob"
  by (induction ob) auto

lemma map_of_replace:
  "map_of (replace k v ob) k' = (if k' = k \<and> map_of ob k \<noteq> None then Some v else map_of ob k')"
  by (induction ob) auto

lemma replace_replace: "replace k v2 (replace k v1 ob) = replace k v2 ob"
  by (induction ob) auto

lemma map_of_None_iff: "map_of ob k = None \<longleftrightarrow> k \<notin> fst ` set ob"
  by (simp add: map_of_eq_None_iff)

lemma map_of_insert_mid:
  "k \<notin> fst ` set ys \<Longrightarrow>
   map_of (ys @ (k, v) # zs) k' = (if k' = k then Some v else map_of (ys @ zs) k')"
  by (induction ys) auto

lemma replace_insert_mid:
  "k \<notin> fst ` set ys \<Longrightarrow> replace k v2 (ys @ (k, v1) # zs) = ys @ (k, v2) # zs"
  by (induction ys) auto

lemma insert_index_absent:
  assumes "map_of ob k = None"
  shows "k \<notin> fst ` set (takeWhile (index_upto n) ob)"
proof
  assume "k \<in> fst ` set (takeWhile (index_upto n) ob)"
  then have "k \<in> fst ` set ob"
    by (auto dest: set_takeWhileD)
  with assms show False by (simp add: map_of_None_iff)
qed

lemma map_of_insert_index:
  assumes "map_of ob k = None"
  shows "map_of (insert_index n k v ob) k' = (if k' = k then Some v else map_of ob k')"
proof -
  have "map_of (takeWhile (index_upto n) ob @ (k, v) # dropWhile (index_upto n) ob) k' =
      (if k' = k then Some v
       else map_of (takeWhile (index_upto n) ob @ dropWhile (index_upto n) ob) k')"
    by (rule map_of_insert_mid) (rule insert_index_absent [OF assms])
  then show ?thesis by (simp only: insert_index_def takeWhile_dropWhile_id)
qed

lemma replace_insert_index:
  assumes "map_of ob k = None"
  shows "replace k v2 (insert_index n k v1 ob) = insert_index n k v2 ob"
  unfolding insert_index_def
  by (rule replace_insert_mid) (rule insert_index_absent [OF assms])

lemma map_of_append_new:
  "map_of ob k = None \<Longrightarrow> map_of (ob @ [(k, v)]) k' = (if k' = k then Some v else map_of ob k')"
  by (induction ob) (auto split: if_splits)

lemma replace_append_new:
  "map_of ob k = None \<Longrightarrow> replace k v2 (ob @ [(k, v1)]) = ob @ [(k, v2)]"
  by (induction ob) (auto split: if_splits)

lemma map_of_put: "map_of (put k v ob) k' = (if k' = k then Some v else map_of ob k')"
proof (cases "map_of ob k")
  case None
  show ?thesis
  proof (cases "array_index k")
    case nk: None
    with None show ?thesis
      by (simp only: put_def option.case map_of_append_new)
  next
    case (Some n)
    with None show ?thesis
      by (simp only: put_def option.case map_of_insert_index)
  qed
next
  case (Some w)
  then show ?thesis by (simp add: put_def map_of_replace)
qed

lemma put_put: "put k v2 (put k v1 ob) = put k v2 ob"
proof (cases "map_of ob k")
  case None
  have p: "map_of (put k v1 ob) k = Some v1" by (simp add: map_of_put)
  have r: "put k v2 (put k v1 ob) = replace k v2 (put k v1 ob)"
    using p by (simp add: put_def [of k v2])
  show ?thesis
  proof (cases "array_index k")
    case nk: None
    have "put k v1 ob = ob @ [(k, v1)]" "put k v2 ob = ob @ [(k, v2)]"
      using None nk by (simp_all add: put_def)
    with r show ?thesis
      using None by (simp add: replace_append_new)
  next
    case (Some n)
    have "put k v1 ob = insert_index n k v1 ob" "put k v2 ob = insert_index n k v2 ob"
      using None Some by (simp_all add: put_def)
    with r show ?thesis
      using None by (simp add: replace_insert_index)
  qed
next
  case (Some w)
  then show ?thesis
    by (simp add: put_def map_of_replace replace_replace)
qed

lemma keys_put: "fst ` set (put k v ob) = insert k (fst ` set ob)"
proof -
  have "dom (map_of (put k v ob)) = insert k (dom (map_of ob))"
    by (auto simp: map_of_put dom_def)
  then show ?thesis by (simp add: dom_map_of_conv_image_fst)
qed

lemma key_before_index_upto:
  "index_upto n e \<Longrightarrow> array_index k = Some n \<Longrightarrow> key_before (fst e) k"
  by (simp add: index_upto_def key_before_def split: option.splits)

lemma key_before_trans: "key_before a b \<Longrightarrow> key_before b c \<Longrightarrow> key_before a c"
  by (auto simp: key_before_def split: option.splits)

lemma key_before_after:
  assumes "array_index k = Some n" "\<not> index_upto n e"
  shows "key_before k (fst e)"
  using assms by (simp add: index_upto_def key_before_def split: option.splits)

lemma canonical_insert_index:
  assumes "canonical ob" "map_of ob k = None" "array_index k = Some n"
  shows "canonical (insert_index n k v ob)"
proof -
  define ys where "ys = takeWhile (index_upto n) ob"
  define zs where "zs = dropWhile (index_upto n) ob"
  have ob: "ob = ys @ zs" by (simp add: ys_def zs_def)
  have k: "k \<notin> fst ` set ys" "k \<notin> fst ` set zs"
    using assms(2) by (auto simp: map_of_None_iff ob)
  have d: "distinct (map fst (ys @ zs))" and s: "sorted_wrt key_before (map fst (ys @ zs))"
    using assms(1) by (simp_all add: canonical_def ob)
  have dist: "distinct (map fst (ys @ (k, v) # zs))"
    using d k by auto
  have before: "\<forall>e\<in>set ys. key_before (fst e) k"
    using assms(3) by (auto simp: ys_def dest!: set_takeWhileD intro: key_before_index_upto)
  have after: "\<forall>e\<in>set zs. key_before k (fst e)"
  proof (cases zs)
    case Nil
    then show ?thesis by simp
  next
    case (Cons z zs')
    have "\<not> index_upto n z"
      using Cons hd_dropWhile [of "index_upto n" ob] by (simp add: zs_def)
    with assms(3) have kz: "key_before k (fst z)" by (rule key_before_after)
    have "sorted_wrt key_before (map fst zs)"
      using s by (simp add: sorted_wrt_append)
    then have "\<forall>e\<in>set zs'. key_before (fst z) (fst e)"
      using Cons by simp
    with kz show ?thesis
      using Cons by (auto intro: key_before_trans)
  qed
  have "sorted_wrt key_before (map fst (ys @ (k, v) # zs))"
    using s before after by (auto simp: sorted_wrt_append)
  with dist show ?thesis by (simp add: canonical_def insert_index_def ys_def zs_def)
qed

lemma canonical_put: "canonical ob \<Longrightarrow> canonical (put k v ob)"
proof (cases "map_of ob k")
  case None
  assume c: "canonical ob"
  show ?thesis
  proof (cases "array_index k")
    case (Some n)
    with None c show ?thesis by (simp add: put_def canonical_insert_index)
  next
    case nk: None
    have "k \<notin> fst ` set ob" using None by (simp add: map_of_None_iff)
    moreover have "\<forall>e\<in>set ob. key_before (fst e) k"
      using nk by (simp add: key_before_def split: option.splits)
    ultimately show ?thesis
      using c None nk by (auto simp: put_def canonical_def sorted_wrt_append)
  qed
next
  case (Some w)
  assume "canonical ob"
  with Some show ?thesis by (simp add: put_def canonical_def map_fst_replace)
qed

lemma put_new_last:
  assumes "canonical (acc @ [(k, v)])"
  shows "put k v acc = acc @ [(k, v)]"
proof -
  have k: "k \<notin> set (map fst acc)" and b: "\<forall>e\<in>set acc. key_before (fst e) k"
    using assms by (auto simp: canonical_def sorted_wrt_append)
  have none: "map_of acc k = None" using k by (simp add: map_of_None_iff)
  show ?thesis
  proof (cases "array_index k")
    case None
    with none show ?thesis by (simp add: put_def)
  next
    case (Some n)
    have "\<forall>e\<in>set acc. index_upto n e"
      using b Some by (auto simp: key_before_def index_upto_def split: option.splits)
    then have "takeWhile (index_upto n) acc = acc" "dropWhile (index_upto n) acc = []"
      by simp_all
    with none Some show ?thesis by (simp add: put_def insert_index_def)
  qed
qed

lemma canonical_prefix: "canonical (xs @ ys) \<Longrightarrow> canonical xs"
  by (simp add: canonical_def sorted_wrt_append)

lemma foldl_put_canonical:
  "canonical (acc @ es) \<Longrightarrow> foldl (\<lambda>ob (k, v). put k v ob) acc es = acc @ es"
proof (induction es arbitrary: acc)
  case Nil
  show ?case by simp
next
  case (Cons e es)
  obtain k v where e: "e = (k, v)" by (cases e)
  have c: "canonical ((acc @ [(k, v)]) @ es)" using Cons.prems e by simp
  then have "put k v acc = acc @ [(k, v)]"
    by (intro put_new_last canonical_prefix [of "acc @ [(k, v)]" es])
  with Cons.IH [OF c] e show ?case by simp
qed

lemma from_entries_canonical: "canonical es \<Longrightarrow> from_entries es = es"
  using foldl_put_canonical [of "[]" es] by (simp add: from_entries_def)

lemma canonical_foldl_put:
  "canonical acc \<Longrightarrow> canonical (foldl (\<lambda>ob (k, v). put k v ob) acc es)"
  by (induction es arbitrary: acc) (auto simp: canonical_put)

lemma canonical_Nil: "canonical []"
  by (simp add: canonical_def)

lemma canonical_from_entries: "canonical (from_entries es)"
  unfolding from_entries_def by (rule canonical_foldl_put) (rule canonical_Nil)

lemma map_of_foldl_put:
  "map_of (foldl (\<lambda>ob (k, v). put k v ob) acc es) k =
     (case map_of (rev es) k of None \<Rightarrow> map_of acc k | Some v \<Rightarrow> Some v)"
proof (induction es arbitrary: acc)
  case Nil
  show ?case by simp
next
  case (Cons e es)
  obtain k' v' where e: "e = (k', v')" by (cases e)
  show ?case
    by (simp add: e Cons.IH map_of_put map_of_append map_add_def split: option.splits)
qed

section \<open>Binary64 arithmetic\<close>

lemma binary64_simps [simp]:
  "num_zero binary64 = Fin False 0 0" "num_one binary64 = Fin False 1 0"
  "num_add binary64 = f64_add" "num_sub binary64 x y = f64_add x (f64_neg y)"
  "num_mul binary64 = f64_mul" "num_div binary64 = f64_div" "num_sqrt binary64 = f64_sqrt"
  "num_nonzero binary64 = f64_nonzero"
  by (simp_all add: binary64_def)






lemma distance_binary64_opposite:
  "distance binary64 [f64_of_int 1] [f64_of_int (- 1)] = Inr (f64_of_int 2)"
  by code_simp

section \<open>Claims about the similarity engine\<close>

text \<open>
  C2. For every pair of equal-length vectors \<open>a\<close> and \<open>b\<close>, \<open>distance a b\<close> is
  \<open>1 - dot(a,b) / (\<parallel>a\<parallel> \<sqdot> \<parallel>b\<parallel>)\<close>, except that it is \<open>1\<close> when \<open>a\<close> or \<open>b\<close> is all-zero. This
  holds in every arithmetic, with the sums taken from the left as the loop takes them.
\<close>

theorem distance_is_cosine_distance:
  "length a = length b \<Longrightarrow>
   distance ar a b =
     Inr (if all_zero ar a \<or> all_zero ar b then num_one ar else cosine_distance ar a b)"
  by (rule distance_eq)

theorem distance_is_cosine_distance_witness:
  "distance exact [1, 0] [0, 1] = Inr 1 \<and> cosine_distance exact [1, 0] [0, 1] = 1 \<and>
   distance exact [0, 0] [0, 1] = Inr 1 \<and> length [1, 0 :: real] = length [0, 1 :: real]"
  using distance_is_cosine_distance [of "[1, 0]" "[0, 1]" exact]
    distance_is_cosine_distance [of "[0, 0]" "[0, 1]" exact]
  by (simp add: all_zero_def cosine_distance_def vec_norm_def dot_def)

text \<open>
  In exact arithmetic the sums are the usual ones, and the division of the second case
  is never a division by zero.
\<close>

lemma cosine_distance_exact:
  "cosine_distance exact a b =
     1 - (\<Sum>(x, y)\<leftarrow>zip a b. x * y) / (sqrt (\<Sum>x\<leftarrow>a. x\<^sup>2) * sqrt (\<Sum>y\<leftarrow>b. y\<^sup>2))"
  by (simp add: cosine_distance_def dot_exact vec_norm_exact)

lemma denominator_exact_nonzero:
  "\<not> all_zero exact a \<Longrightarrow> \<not> all_zero exact b \<Longrightarrow> vec_norm exact a * vec_norm exact b \<noteq> 0"
  by (simp add: vec_norm_exact_eq_0)

text \<open>
  C3. The distance should be at most \<open>1\<close>, the value returned for an all-zero vector, as
  the comment on that \<^verbatim>\<open>return 1\<close> says (\<^verbatim>\<open>Return maximum distance if one vector is zero\<close>).
  The code returns more: the vectors \<open>[1]\<close> and \<open>[-1]\<close> are at distance \<open>2\<close>, in binary64
  arithmetic and in exact arithmetic alike.
\<close>

theorem distance_above_one:
  "distance binary64 [f64_of_int 1] [f64_of_int (- 1)] = Inr (f64_of_int 2) \<and>
   f64_of_int 1 = Fin False 1 0 \<and> f64_of_int (- 1) = Fin True 1 0 \<and> f64_of_int 2 = Fin False 1 1 \<and>
   distance exact [1] [- 1] = Inr 2 \<and> \<not> (2 :: real) \<le> 1"
proof -
  have "distance exact [1] [- 1] = Inr 2"
    by (simp add: distance_def)
  moreover have "f64_of_int 1 = Fin False 1 0" "f64_of_int (- 1) = Fin True 1 0"
    "f64_of_int 2 = Fin False 1 1"
    by code_simp+
  ultimately show ?thesis
    using distance_binary64_opposite by simp
qed




text \<open>
  Where the sum of squares is not a positive finite number the distance of a vector to
  itself is \<^verbatim>\<open>NaN\<close>: the square of \<open>2\<^sup>-\<^sup>6\<^sup>0\<^sup>0\<close> underflows to \<open>0\<close>, that of \<open>2\<^sup>6\<^sup>0\<^sup>0\<close> overflows.
\<close>

lemma distance_self_underflow:
  "distance binary64 [Fin False 1 (- 600)] [Fin False 1 (- 600)] = Inr NaN \<and>
   dot binary64 [Fin False 1 (- 600)] [Fin False 1 (- 600)] = Fin False 0 0"
  by code_simp

lemma distance_self_overflow:
  "distance binary64 [Fin False 1 600] [Fin False 1 600] = Inr NaN \<and>
   dot binary64 [Fin False 1 600] [Fin False 1 600] = Inf False"
  by code_simp

section \<open>The record store\<close>

lemma map_of_rev_distinct: "distinct (map fst xs) \<Longrightarrow> map_of (rev xs) = map_of xs"
proof (induction xs)
  case Nil
  show ?case by simp
next
  case (Cons x xs)
  obtain k v where x: "x = (k, v)" by (cases x)
  have "map_of xs k = None" using Cons.prems x by (simp add: map_of_None_iff)
  then show ?case
    using Cons x by (auto simp: map_of_append map_add_def fun_eq_iff split: option.splits)
qed

lemma map_of_from_entries:
  "map_of (from_entries es) k = map_of (rev es) k"
  by (simp add: from_entries_def map_of_foldl_put split: option.splits)

lemma map_of_spread:
  assumes "canonical a" "canonical b"
  shows "map_of (spread a b) k = (case map_of b k of None \<Rightarrow> map_of a k | Some v \<Rightarrow> Some v)"
proof -
  have "map_of (rev a) = map_of a" "map_of (rev b) = map_of b"
    using assms by (simp_all add: canonical_def map_of_rev_distinct)
  then show ?thesis
    by (simp add: spread_def map_of_from_entries map_of_append map_add_def)
qed

lemma spread_Nil: "canonical b \<Longrightarrow> spread [] b = b"
  by (simp add: spread_def from_entries_canonical)

lemma canonical_spread: "canonical (spread a b)"
  by (simp add: spread_def canonical_from_entries)

subsection \<open>Reading and assigning a property\<close>

lemma get_property_put: "get_property (put k v ob) k = Own v"
  by (simp add: get_property_def map_of_put)

lemma get_property_Own: "get_property ob k = Own v \<longleftrightarrow> map_of ob k = Some v"
  by (simp add: get_property_def split: option.splits)

lemma get_property_Missing:
  "get_property ob k = Missing \<longleftrightarrow> map_of ob k = None \<and> k \<notin> set proto_names"
  by (simp add: get_property_def split: option.splits)

lemma get_property_Inherited:
  "get_property ob k = Inherited \<longleftrightarrow> map_of ob k = None \<and> k \<in> set proto_names"
  by (simp add: get_property_def split: option.splits)

lemma canonical_assign: "canonical ob \<Longrightarrow> canonical (assign k v ob)"
  by (simp add: assign_def canonical_put)

lemma assign_assign: "assign k v2 (assign k v1 ob) = assign k v2 ob"
proof (cases "k = ''__proto__'' \<and> map_of ob k = None")
  case True
  then show ?thesis by (auto simp: assign_def)
next
  case False
  then have "assign k v1 ob = put k v1 ob" "assign k v2 ob = put k v2 ob"
    by (auto simp: assign_def)
  then show ?thesis by (simp add: assign_def map_of_put put_put)
qed

text \<open>An assignment to any key but \<^verbatim>\<open>__proto__\<close> defines the property.\<close>

lemma assign_put: "k \<noteq> ''__proto__'' \<Longrightarrow> assign k v ob = put k v ob"
  by (simp add: assign_def)

subsection \<open>save and load\<close>

lemma save_Some:
  "save s (Some (c # cs)) = Inr (s\<lparr>fs := (fs s)(c # cs \<mapsto> Snapshot (json_image (memoryDB s)))\<rparr>)"
  by (simp add: save_def)

lemma save_configured:
  "truthy (filename s) \<Longrightarrow>
   \<exists>f. filename s = Some f \<and>
     save s None = Inr (s\<lparr>fs := (fs s)(f \<mapsto> Snapshot (json_image (memoryDB s)))\<rparr>)"
  by (cases "filename s") (simp_all add: save_def)

subsection \<open>upsert\<close>

lemma table_of_put: "table_of (put t tbl db) t = tbl"
  by (simp add: table_of_def map_of_put)

lemma upsert_db_alt:
  "(case get_property (case get_property db (u_table req) of
                         Missing \<Rightarrow> put (u_table req) [] db | _ \<Rightarrow> db) (u_table req) of
      Own table \<Rightarrow>
        put (u_table req) (assign (u_id req) req table)
          (case get_property db (u_table req) of Missing \<Rightarrow> put (u_table req) [] db | _ \<Rightarrow> db)
    | _ \<Rightarrow> (case get_property db (u_table req) of Missing \<Rightarrow> put (u_table req) [] db | _ \<Rightarrow> db))
   = upsert_db db req"
proof (cases "get_property db (u_table req)")
  case (Own table)
  then have "table_of db (u_table req) = table"
    by (simp add: get_property_Own table_of_def)
  with Own show ?thesis by (simp add: upsert_db_def)
next
  case Inherited
  then show ?thesis by (simp add: upsert_db_def)
next
  case Missing
  then have "table_of db (u_table req) = []"
    by (simp add: get_property_Missing table_of_def)
  with Missing show ?thesis by (simp add: upsert_db_def get_property_put put_put)
qed

lemma write_through_fields [simp]:
  "memoryDB (write_through s) = memoryDB s" "filename (write_through s) = filename s"
  by (simp_all add: write_through_def split: option.splits)

lemma write_through_update:
  "write_through ((write_through s)\<lparr>memoryDB := d\<rparr>) = write_through (s\<lparr>memoryDB := d\<rparr>)"
  by (simp add: write_through_def split: option.splits)


lemma save_write_through: "truthy (filename s) \<Longrightarrow> save s None = Inr (write_through s)"
  by (cases "filename s") (auto simp: save_def write_through_def)

lemma upsert_eq:
  "upsert s req = Inr ([u_id req], write_through (s\<lparr>memoryDB := upsert_db (memoryDB s) req\<rparr>))"
proof (cases "truthy (filename s)")
  case True
  then show ?thesis
    by (simp add: upsert_def Let_def upsert_db_alt save_write_through)
next
  case False
  then show ?thesis
    by (cases "filename s") (auto simp: upsert_def Let_def upsert_db_alt write_through_def)
qed

text \<open>
  A second \<open>upsert\<close> under the same table name and id leaves what it would have left
  without the first.
\<close>

lemma upsert_db_twice:
  assumes "u_table r2 = u_table r1" "u_id r2 = u_id r1"
  shows "upsert_db (upsert_db db r1) r2 = upsert_db db r2"
proof (cases "get_property db (u_table r1) = Inherited")
  case True
  then show ?thesis by (simp add: upsert_db_def assms)
next
  case False
  then have "upsert_db db r1 =
      put (u_table r1) (assign (u_id r1) r1 (table_of db (u_table r1))) db"
    and "upsert_db db r2 =
      put (u_table r1) (assign (u_id r1) r2 (table_of db (u_table r1))) db"
    by (cases "get_property db (u_table r1)"; simp add: upsert_db_def assms)+
  then show ?thesis
    by (simp add: upsert_db_def assms get_property_put table_of_put put_put assign_assign)
qed

text \<open>
  Under an id other than \<^verbatim>\<open>__proto__\<close>, and a table name that is not one of
  \<^verbatim>\<open>Object.prototype\<close> alone, the record is in its table afterwards.
\<close>

lemma upsert_db_stores:
  assumes "u_id req \<noteq> ''__proto__''" "get_property db (u_table req) \<noteq> Inherited"
  shows "map_of (table_of (upsert_db db req) (u_table req)) (u_id req) = Some req"
proof -
  have "upsert_db db req = put (u_table req) (put (u_id req) req (table_of db (u_table req))) db"
    using assms by (cases "get_property db (u_table req)") (simp_all add: upsert_db_def assign_put)
  then show ?thesis by (simp add: table_of_put map_of_put)
qed

lemma upsert_db_a1_a: "upsert_db (upsert_db [] rec_a1) rec_a = [(''docs'', [(''a'', rec_a)])]"
  by code_simp

lemma upsert_twice:
  assumes "u_table r2 = u_table r1" "u_id r2 = u_id r1"
    and "upsert s r1 = Inr (ids1, s1)" "upsert s1 r2 = Inr (ids2, s2)"
  shows "upsert s r2 = Inr (ids2, s2)"
proof -
  have s1: "s1 = write_through (s\<lparr>memoryDB := upsert_db (memoryDB s) r1\<rparr>)"
    using assms(3) by (simp add: upsert_eq)
  have "upsert s1 r2 = upsert s r2"
    by (simp add: upsert_eq s1 write_through_update upsert_db_twice [OF assms(1,2)])
  with assms(4) show ?thesis by simp
qed

lemma map_of_upsert_db:
  "map_of (upsert_db db req) t =
     (if t = u_table req \<and> get_property db (u_table req) \<noteq> Inherited
      then Some (assign (u_id req) req (table_of db (u_table req)))
      else map_of db t)"
  by (cases "get_property db (u_table req)") (simp_all add: upsert_db_def map_of_put)

lemma list_all_canonical_iff:
  "canonical db \<Longrightarrow>
   list_all (\<lambda>(t, tbl). canonical tbl) db \<longleftrightarrow> (\<forall>t tbl. map_of db t = Some tbl \<longrightarrow> canonical tbl)"
  by (auto simp: list_all_iff canonical_def dest: map_of_SomeD)

lemma well_formed_iff:
  "well_formed s \<longleftrightarrow>
   canonical (memoryDB s) \<and> (\<forall>t tbl. map_of (memoryDB s) t = Some tbl \<longrightarrow> canonical tbl)"
  using list_all_canonical_iff [of "memoryDB s"] by (auto simp: well_formed_def)

lemma canonical_table_of:
  "well_formed s \<Longrightarrow> canonical (table_of (memoryDB s) t)"
  by (auto simp: well_formed_iff table_of_def canonical_Nil split: option.splits)

lemma well_formed_write_through [simp]: "well_formed (write_through s) = well_formed s"
  by (simp add: well_formed_def)

lemma canonical_upsert_db: "canonical db \<Longrightarrow> canonical (upsert_db db req)"
  by (cases "get_property db (u_table req)") (simp_all add: upsert_db_def canonical_put)

lemma well_formed_upsert_db:
  assumes "well_formed s"
  shows "well_formed (s\<lparr>memoryDB := upsert_db (memoryDB s) req\<rparr>)"
proof -
  have "canonical (upsert_db (memoryDB s) req)"
    using assms by (simp add: canonical_upsert_db well_formed_iff)
  moreover have "canonical tbl" if "map_of (upsert_db (memoryDB s) req) t = Some tbl" for t tbl
    using that assms canonical_table_of [OF assms, of "u_table req"]
    by (auto simp: map_of_upsert_db canonical_assign well_formed_iff split: if_splits)
  ultimately show ?thesis by (simp add: well_formed_iff)
qed

lemma well_formed_upsert:
  "well_formed s \<Longrightarrow> upsert s req = Inr (ids, s') \<Longrightarrow> well_formed s'"
  by (auto simp: upsert_eq well_formed_upsert_db)

lemma array_index_names [simp]:
  "array_index ''a'' = None" "array_index ''b'' = None" "array_index ''c'' = None"
  "array_index ''d'' = None" "array_index ''n'' = None"
  "array_index ''docs'' = None" "array_index ''notes'' = None"
  by (simp_all add: array_index_def digit_def)

subsection \<open>batchUpsert\<close>

lemma upsert_each_Cons:
  "upsert_each s (req # reqs) =
     upsert_each (write_through (s\<lparr>memoryDB := upsert_db (memoryDB s) req\<rparr>)) reqs"
  by (simp add: upsert_eq)

lemma batch_loop_Cons:
  "batch_loop s (req # reqs) ids =
     batch_loop (write_through (s\<lparr>memoryDB := upsert_db (memoryDB s) req\<rparr>)) reqs (ids @ [u_id req])"
  by (simp add: upsert_eq)

lemma batch_loop_eq:
  "\<exists>s'. upsert_each s reqs = Inr s' \<and> batch_loop s reqs ids = Inr (ids @ map u_id reqs, s')"
proof (induction reqs arbitrary: s ids)
  case Nil
  show ?case by simp
next
  case (Cons req reqs)
  show ?case
    using Cons.IH [of "write_through (s\<lparr>memoryDB := upsert_db (memoryDB s) req\<rparr>)" "ids @ [u_id req]"]
    by (simp only: upsert_each_Cons batch_loop_Cons) simp
qed




lemma write_through_unconfigured: "\<not> truthy (filename s) \<Longrightarrow> write_through s = s"
  by (cases "filename s") (auto simp: write_through_def)

lemma batchUpsert_eq:
  assumes "upsert_each s reqs = Inr s'"
  shows "batchUpsert s reqs = Inr (map u_id reqs, write_through s')"
proof -
  have "batch_loop s reqs [] = Inr (map u_id reqs, s')"
    using batch_loop_eq [of s reqs "[]"] assms by auto
  then show ?thesis
    by (cases "truthy (filename s')")
       (simp_all add: batchUpsert_def save_write_through write_through_unconfigured)
qed






section \<open>Sorting keeps the elements\<close>

lemma extend_run_append: "extend_run lt descending previous xs = (run, rest) \<Longrightarrow> run @ rest = xs"
proof (induction xs arbitrary: previous run rest)
  case Nil
  then show ?case by simp
next
  case (Cons x xs)
  show ?case
  proof (cases "lt x previous = descending")
    case True
    obtain run' rest' where r: "extend_run lt descending x xs = (run', rest')"
      by (cases "extend_run lt descending x xs")
    from Cons.IH [OF r] Cons.prems True r show ?thesis by auto
  next
    case False
    with Cons.prems show ?thesis by auto
  qed
qed

lemma mset_count_and_make_run:
  assumes "count_and_make_run lt xs = (run, rest)"
  shows "mset run + mset rest = mset xs"
proof (cases xs)
  case Nil
  with assms show ?thesis by (simp add: count_and_make_run_def)
next
  case (Cons x0 xs')
  show ?thesis
  proof (cases xs')
    case Nil
    with Cons assms show ?thesis by (simp add: count_and_make_run_def)
  next
    case (Cons x1 ys)
    obtain run' rest' where r: "extend_run lt (lt x1 x0) x1 ys = (run', rest')"
      by (cases "extend_run lt (lt x1 x0) x1 ys")
    have ys: "run' @ rest' = ys" by (rule extend_run_append [OF r])
    have "rest = rest'" "mset run = mset (x0 # x1 # run')"
      using assms r \<open>xs = x0 # xs'\<close> Cons
      by (auto simp: count_and_make_run_def Let_def split: if_splits)
    then show ?thesis
      using ys \<open>xs = x0 # xs'\<close> Cons by auto
  qed
qed

lemma mset_binary_insert: "mset (binary_insert lt work pivot) = add_mset pivot (mset work)"
proof -
  let ?left = "insertion_point lt pivot work 0 (length work)"
  have "mset (take ?left work) + mset (drop ?left work) = mset work"
    by (metis append_take_drop_id mset_append)
  then show ?thesis by (simp add: binary_insert_def Let_def)
qed

lemma mset_foldl_binary_insert:
  "mset (foldl (binary_insert lt) run rest) = mset run + mset rest"
  by (induction rest arbitrary: run) (simp_all add: mset_binary_insert)

lemma mset_js_sort: "mset (js_sort lt xs) = mset xs"
proof -
  obtain run rest where r: "count_and_make_run lt xs = (run, rest)"
    by (cases "count_and_make_run lt xs")
  then show ?thesis
    using mset_count_and_make_run [OF r] by (simp add: js_sort_def mset_foldl_binary_insert)
qed

lemma length_js_sort: "length (js_sort lt xs) = length xs"
  using mset_js_sort [of lt xs] by (rule mset_eq_length)

section \<open>The query executor\<close>

lemma distance_binary64_score:
  "length q = length v \<Longrightarrow> distance binary64 q v = Inr (score q v)"
  by (simp add: distance_eq score_def)

lemma distance_mismatch:
  "length q \<noteq> length v \<Longrightarrow> distance ar q v = Inl DimensionMismatch"
  by (simp add: distance_def)

lemma scan_None: "scan None es acc = Inr acc"
  by (induction es arbitrary: acc) auto

lemma scan_Some:
  "scan (Some q) es acc =
     (if conforming q es then Inr (acc @ map (expected_match q) (eligible es))
      else Inl DimensionMismatch)"
proof (induction es arbitrary: acc)
  case Nil
  show ?case by (simp add: conforming_def eligible_def)
next
  case (Cons e es)
  obtain rid data where e: "e = (rid, data)" by (cases e)
  show ?case
  proof (cases "u_values data")
    case None
    then show ?thesis
      by (simp add: e Cons.IH conforming_def eligible_def)
  next
    case (Some v)
    show ?thesis
    proof (cases "length v = length q")
      case True
      then show ?thesis
        using Some
        by (simp add: e Cons.IH conforming_def eligible_def expected_match_def
            distance_binary64_score)
    next
      case False
      then have "distance binary64 q v = Inl DimensionMismatch"
        by (simp add: distance_mismatch)
      with False Some show ?thesis
        by (simp add: e conforming_def)
    qed
  qed
qed

text \<open>A query without a vector matches nothing.\<close>

lemma query_without_vector:
  assumes "map_of (memoryDB s) (q_table req) = Some tbl" "q_values req = None" "q_limit req = None"
  shows "query s req = Inr []"
  using assms by (simp add: query_def get_property_def scan_None js_sort_def count_and_make_run_def)

lemma query_no_limit:
  assumes "map_of (memoryDB s) (q_table req) = Some tbl" "q_values req = Some q"
    "q_limit req = None"
  shows "query s req =
     (if conforming q tbl
      then Inr (map Some (js_sort score_before (map (expected_match q) (eligible tbl))))
      else Inl DimensionMismatch)"
  using assms by (simp add: query_def get_property_def scan_Some)

lemma expected_match_id: "map m_id (map (expected_match q) es) = map fst es"
  by (simp add: expected_match_def comp_def)

text \<open>
  A query with a vector and no limit against a table of the store: when it returns, the
  result has exactly one match per record of the table that has values, with the
  record's key, distance and metadata. Records without values give no match and never
  make the query fail. (The order of the matches is that of \<open>js_sort\<close>, which is
  ascending only as far as the comparator orders the scores.)
\<close>

lemma query_matches_eligible:
  assumes "map_of (memoryDB s) (q_table req) = Some tbl" "q_values req = Some q"
    "q_limit req = None" "query s req = Inr res"
  shows "\<exists>ms. res = map Some ms \<and> length ms = length (eligible tbl) \<and>
           mset ms = mset (map (expected_match q) (eligible tbl)) \<and>
           mset (map m_id ms) = mset (map fst (eligible tbl))"
proof -
  let ?ms = "js_sort score_before (map (expected_match q) (eligible tbl))"
  have res: "res = map Some ?ms"
    using assms by (simp add: query_no_limit split: if_splits)
  have m: "mset ?ms = mset (map (expected_match q) (eligible tbl))"
    by (rule mset_js_sort)
  have "mset (map m_id ?ms) = mset (map m_id (map (expected_match q) (eligible tbl)))"
    using m by (metis mset_map)
  then have "mset (map m_id ?ms) = mset (map fst (eligible tbl))"
    by (simp only: expected_match_id)
  with res m show ?thesis
    by (simp add: length_js_sort)
qed

text \<open>
  \<open>query\<close> fails with \<open>TableNotFound\<close> exactly when the read of the table finds nothing,
  own or inherited.
\<close>

lemma query_errors:
  "query s req = Inl TableNotFound \<longleftrightarrow> get_property (memoryDB s) (q_table req) = Missing"
proof (cases "get_property (memoryDB s) (q_table req)")
  case (Own tbl)
  have "scan (q_values req) tbl [] \<noteq> Inl TableNotFound"
    by (cases "q_values req") (simp_all add: scan_None scan_Some)
  then show ?thesis
    using Own by (auto simp: query_def set_length_def Let_def split: sum.splits option.splits)
next
  case Inherited
  then show ?thesis
    by (cases "q_values req")
       (auto simp: query_def set_length_def Let_def split: sum.splits option.splits)
next
  case Missing
  then show ?thesis by (simp add: query_def)
qed

text \<open>
  When the table exists and some record with values has another length than the query
  vector, the whole query fails with the \<open>DimensionMismatch\<close> of \<open>distance\<close>, whatever the
  limit: no record is skipped and no partial result is returned.
\<close>

lemma query_mismatch:
  assumes "map_of (memoryDB s) (q_table req) = Some tbl" "q_values req = Some q"
    "\<not> conforming q tbl"
  shows "query s req = Inl DimensionMismatch"
  using assms by (simp add: query_def get_property_def scan_Some)

text \<open>
  C1. With a limit \<open>k\<close>, \<open>query\<close> should return \<open>min k n\<close> matches, \<open>n\<close> the number of
  eligible records. The code assigns \<open>k\<close> to the length of the array instead: on the table
  \<open>docs\<close> with two eligible records, the limit \<open>5\<close> gives five slots, three of them
  empty, and the limit \<open>0\<close>, being falsy, gives both matches instead of none.
\<close>

theorem query_limit_resizes_blindly:
  "query docs_store (docs_query (Some 5)) = Inr [Some match_a, Some match_b, None, None, None] \<and>
   query docs_store (docs_query (Some 0)) = Inr [Some match_a, Some match_b] \<and>
   eligible (table_of (memoryDB docs_store) ''docs'') = [(''a'', rec_a), (''b'', rec_b)]"
  by code_simp

text \<open>A limit between \<open>1\<close> and the number of eligible records keeps that many matches.\<close>

lemma query_limit_within:
  assumes "map_of (memoryDB s) (q_table req) = Some tbl" "q_values req = Some q"
    "q_limit req = Some k" "conforming q tbl" "0 < k" "k \<le> 2 ^ 32 - 1"
    "nat k \<le> length (eligible tbl)"
  shows "query s req =
     Inr (map Some (take (nat k) (js_sort score_before (map (expected_match q) (eligible tbl)))))"
  using assms
  by (simp add: query_def get_property_def scan_Some set_length_def take_map Let_def length_js_sort)

text \<open>
  C5. The matches of a query should be in ascending order of score. A score can be
  \<^verbatim>\<open>NaN\<close>, and the comparator \<^verbatim>\<open>a.score - b.score\<close> then gives \<^verbatim>\<open>NaN\<close>, which the sort takes
  for \<open>0\<close>: on the table of the records \<open>far = [-1, 0]\<close>, \<open>tiny = [0, 2\<^sup>-\<^sup>6\<^sup>0\<^sup>0]\<close> and
  \<open>near = [1, 0]\<close>, the query vector \<open>[1, 0]\<close> gets the scores \<open>2\<close>, \<^verbatim>\<open>NaN\<close> and \<open>0\<close> in this
  order: the match at distance \<open>2\<close> comes first and the match at distance \<open>0\<close> last.
\<close>

theorem query_not_ascending:
  "query tiny_store (docs_query None) =
     Inr [Some \<lparr>m_id = ''far'', m_score = Fin False 1 1, m_metadata = None\<rparr>,
          Some \<lparr>m_id = ''tiny'', m_score = NaN, m_metadata = None\<rparr>,
          Some \<lparr>m_id = ''near'', m_score = Fin False 0 0, m_metadata = None\<rparr>] \<and>
   f64_negative (f64_add (Fin False 0 0) (f64_neg (Fin False 1 1))) \<and>
   f64_of_int 2 = Fin False 1 1 \<and> f64_of_int 0 = Fin False 0 0"
  by code_simp

text \<open>
  C6. \<open>query\<close> should fail with \<open>TableNotFound\<close> when the store has no table of the name.
  The read \<^verbatim>\<open>this.memoryDB[req.table]\<close> goes through the prototype chain: on the empty
  store, a query for the table \<^verbatim>\<open>toString\<close> finds the method of \<^verbatim>\<open>Object.prototype\<close>, which
  is truthy, and returns no match instead of failing.
\<close>

theorem query_inherited_name:
  "query empty_store toString_query = Inr [] \<and>
   memoryDB empty_store = [] \<and> q_table toString_query = ''toString''"
  by code_simp

text \<open>
  C7. A record upserted under an id should be in its table, the latest one under that
  id. With the id \<^verbatim>\<open>__proto__\<close> the assignment \<^verbatim>\<open>table[req.id] = req\<close> sets the prototype of
  the table and stores nothing: after \<open>upsert rec_p1\<close> and \<open>upsert rec_p2\<close> on the empty
  store the table \<open>docs\<close> exists and is empty, and a query finds no match, although
  \<open>rec_p2\<close> has values.
\<close>

theorem upsert_proto_id_stores_nothing:
  "upsert empty_store rec_p1 = Inr ([''__proto__''], docs_only) \<and>
   upsert docs_only rec_p2 = Inr ([''__proto__''], docs_only) \<and>
   memoryDB docs_only = [(''docs'', [])] \<and>
   query docs_only (docs_query None) = Inr [] \<and>
   u_table rec_p2 = ''docs'' \<and> u_values rec_p2 = Some [Fin False 1 0, Fin False 0 0]"
proof -
  have "upsert_db [] rec_p1 = [(''docs'', [])]"
    "upsert_db [(''docs'', [])] rec_p2 = [(''docs'', [])]"
    by (simp_all add: upsert_db_def get_property_def proto_names_def table_of_def assign_def
        put_def rec_p1_def rec_p2_def)
  then have "upsert empty_store rec_p1 = Inr ([''__proto__''], docs_only)"
    "upsert docs_only rec_p2 = Inr ([''__proto__''], docs_only)"
    by (simp_all add: upsert_eq write_through_def empty_store_def docs_only_def rec_p1_def
        rec_p2_def)
  moreover have "query docs_only (docs_query None) = Inr []"
    by code_simp
  ultimately show ?thesis
    by (simp add: docs_only_def rec_p2_def)
qed

section \<open>The persistence manager\<close>

lemma load_Some:
  "fs s (c # cs) = Some (Snapshot img) \<Longrightarrow>
   load s (Some (c # cs)) = Inr (s\<lparr>memoryDB := spread (memoryDB s) (parse_snapshot img)\<rparr>)"
  by (simp add: load_def)

lemma load_Inr:
  assumes "load s arg = Inr s'"
  shows "\<exists>f img. (case arg of None \<Rightarrow> filename s | Some f \<Rightarrow> Some f) = Some f \<and>
           fs s f = Some (Snapshot img) \<and>
           s' = s\<lparr>memoryDB := spread (memoryDB s) (parse_snapshot img)\<rparr>"
  using assms
  by (auto simp: load_def Let_def split: option.splits if_splits file_text.splits)

lemma canonical_parse_snapshot: "canonical (parse_snapshot img)"
  by (simp add: parse_snapshot_def canonical_from_entries)

lemma map_of_map_snd:
  "map_of (map (\<lambda>(k, v). (k, f v)) xs) k = map_option f (map_of xs k)"
  by (induction xs) auto

lemma map_of_parse_snapshot:
  "map_of (parse_snapshot img) t = map_option from_entries (map_of (rev img) t)"
proof -
  have "rev (map (\<lambda>(t, recs). (t, from_entries recs)) img) =
      map (\<lambda>(t, recs). (t, from_entries recs)) (rev img)"
    by (rule rev_map)
  then show ?thesis
    by (simp only: parse_snapshot_def map_of_from_entries map_of_map_snd)
qed

lemma parse_snapshot_canonical:
  assumes "canonical img" "list_all (\<lambda>(t, tbl). canonical tbl) img"
  shows "parse_snapshot img = img"
proof -
  have "map (\<lambda>(t, recs). (t, from_entries recs)) img = img"
    using assms(2) by (intro map_idI) (auto simp: list_all_iff from_entries_canonical)
  then show ?thesis
    using assms(1) by (simp add: parse_snapshot_def from_entries_canonical)
qed

lemma keys_rev: "map_of (rev img) t = None \<longleftrightarrow> t \<notin> fst ` set img"
  by (simp add: map_of_None_iff)

text \<open>
  C4. \<open>load\<close> merges at table granularity. On a file that holds a snapshot it returns,
  and every table of the snapshot is then the table of that name in memory, built from
  the file's records alone (of a name the text lists twice, the last table counts),
  while every table of the memory that the file does not name is as it was. The file
  name and the files are untouched.
\<close>

theorem load_merges_tables:
  assumes "canonical (memoryDB s)"
    and "(case arg of None \<Rightarrow> filename s | Some f \<Rightarrow> Some f) = Some f" "truthy (Some f)"
    and "fs s f = Some (Snapshot img)"
  shows "\<exists>s'. load s arg = Inr s' \<and>
           (\<forall>t recs. map_of (rev img) t = Some recs \<longrightarrow>
                map_of (memoryDB s') t = Some (from_entries recs)) \<and>
           (\<forall>t. t \<notin> fst ` set img \<longrightarrow> map_of (memoryDB s') t = map_of (memoryDB s) t) \<and>
           filename s' = filename s \<and> fs s' = fs s"
proof -
  let ?s' = "s\<lparr>memoryDB := spread (memoryDB s) (parse_snapshot img)\<rparr>"
  have l: "load s arg = Inr ?s'"
    using assms(2-4) by (simp add: load_def)
  have m: "map_of (memoryDB ?s') t =
      (case map_of (rev img) t of None \<Rightarrow> map_of (memoryDB s) t
       | Some recs \<Rightarrow> Some (from_entries recs))" for t
    by (simp add: map_of_spread [OF assms(1) canonical_parse_snapshot] map_of_parse_snapshot
        split: option.splits)
  have "map_of (memoryDB ?s') t = map_of (memoryDB s) t" if "t \<notin> fst ` set img" for t
    using that keys_rev [of img t] by (simp only: m) simp
  with l m show ?thesis
    by (intro exI [of _ ?s']) simp
qed

lemma load_two_tables:
  "load two_tables (Some ''snap.json'') =
     Inr (two_tables\<lparr>memoryDB := [(''docs'', [(''d'', rec_d)]), (''notes'', [(''n'', rec_n)])]\<rparr>)"
  by (simp add: load_def two_tables_def spread_def parse_snapshot_def from_entries_def put_def)

theorem load_merges_tables_witness:
  "canonical (memoryDB two_tables) \<and> truthy (Some ''snap.json'') \<and>
   fs two_tables ''snap.json'' = Some (Snapshot [(''docs'', [(''d'', rec_d)])]) \<and>
   load two_tables (Some ''snap.json'') =
     Inr (two_tables\<lparr>memoryDB := [(''docs'', [(''d'', rec_d)]), (''notes'', [(''n'', rec_n)])]\<rparr>) \<and>
   map_of (rev [(''docs'', [(''d'', rec_d)])]) ''docs'' = Some [(''d'', rec_d)] \<and>
   ''notes'' \<notin> fst ` set [(''docs'', [(''d'', rec_d)])] \<and>
   map_of (memoryDB two_tables) ''notes'' = Some [(''n'', rec_n)]"
proof -
  have c: "canonical (memoryDB two_tables)"
    by (simp add: canonical_def two_tables_def key_before_def)
  have f: "fs two_tables ''snap.json'' = Some (Snapshot [(''docs'', [(''d'', rec_d)])])"
    by (simp add: two_tables_def)
  have a: "(case Some ''snap.json'' of None \<Rightarrow> filename two_tables | Some f \<Rightarrow> Some f) =
      Some ''snap.json''" and t: "truthy (Some ''snap.json'')"
    by simp_all
  show ?thesis
    using load_merges_tables [OF c a t f] c f load_two_tables
    by (simp add: two_tables_def)
qed

lemma query_memoryDB: "memoryDB s = memoryDB s' \<Longrightarrow> query s req = query s' req"
  by (simp add: query_def)

lemma new_MemoryDB_None: "new_MemoryDB None files = \<lparr>memoryDB = [], filename = None, fs = files\<rparr>"
  by (simp add: new_MemoryDB_def)

text \<open>
  C9. A store saved to a file and loaded into a fresh store should answer every query
  as before. \<^verbatim>\<open>JSON.stringify\<close> writes \<^verbatim>\<open>Infinity\<close> as \<^verbatim>\<open>null\<close>, which \<^verbatim>\<open>distance\<close> then reads
  as \<open>0\<close>: the record with the vector \<open>[Infinity, 1]\<close> is at distance \<^verbatim>\<open>NaN\<close> from \<open>[1, 1]\<close>
  in the store that is saved and at distance \<open>659536895553805 \<times> 2\<^sup>-\<^sup>5\<^sup>1\<close> (about \<open>0.2929\<close>) in
  the store that is loaded.
\<close>

theorem save_load_changes_query:
  "query inf_store ones_query = Inr [Some \<lparr>m_id = ''i'', m_score = NaN, m_metadata = None\<rparr>] \<and>
   query_reloaded inf_store ''db.json'' ones_query =
     Inr [Some \<lparr>m_id = ''i'', m_score = Fin False 659536895553805 (- 51), m_metadata = None\<rparr>] \<and>
   memoryDB inf_store = [(''docs'', [(''i'', rec_inf)])] \<and>
   u_values rec_inf = Some [Inf False, Fin False 1 0] \<and>
   q_values ones_query = Some [Fin False 1 0, Fin False 1 0]"
  by code_simp

text \<open>
  A store is written as it is when none of its numbers is \<^verbatim>\<open>NaN\<close>, infinite or \<open>-0\<close>. Such
  a store, saved and loaded into a fresh store, has the same tables again and answers
  every query as before, and so has a store constructed on the file name.
\<close>

lemma save_load_roundtrip:
  assumes "well_formed s" "truthy (Some path)" "json_image (memoryDB s) = memoryDB s"
  shows "\<exists>s1 s2. save s (Some path) = Inr s1 \<and>
           load (new_MemoryDB None (fs s1)) (Some path) = Inr s2 \<and>
           memoryDB s2 = memoryDB s \<and>
           (\<forall>req. query s2 req = query s req) \<and>
           query_reloaded s path req = query s req \<and>
           memoryDB (new_MemoryDB (Some path) (fs s1)) = memoryDB s"
proof -
  obtain c cs where path: "path = c # cs"
    using assms(2) by (cases path) auto
  let ?s1 = "s\<lparr>fs := (fs s)(path \<mapsto> Snapshot (memoryDB s))\<rparr>"
  have save: "save s (Some path) = Inr ?s1"
    by (simp add: path save_def assms(3))
  have p: "parse_snapshot (memoryDB s) = memoryDB s"
    using assms(1) by (simp add: well_formed_def parse_snapshot_canonical)
  have c: "canonical (memoryDB s)" using assms(1) by (simp add: well_formed_def)
  let ?s2 = "\<lparr>memoryDB = memoryDB s, filename = None, fs = fs ?s1\<rparr>"
  have load: "load (new_MemoryDB None (fs ?s1)) (Some path) = Inr ?s2"
    by (simp add: new_MemoryDB_None load_def path p spread_Nil [OF c])
  have q: "query ?s2 req = query s req" for req
    by (rule query_memoryDB) simp
  have r: "query_reloaded s path req = query s req"
    by (simp only: query_reloaded_def save load q sum.case)
  have n: "memoryDB (new_MemoryDB (Some path) (fs ?s1)) = memoryDB s"
    by (simp add: new_MemoryDB_def load_def path p spread_Nil [OF c])
  from save load q r n show ?thesis by auto
qed

subsection \<open>Every operation keeps the state well formed\<close>

lemma well_formed_new: "well_formed \<lparr>memoryDB = [], filename = arg, fs = files\<rparr>"
  by (simp add: well_formed_def canonical_Nil)

lemma well_formed_save: "well_formed s \<Longrightarrow> save s arg = Inr s' \<Longrightarrow> well_formed s'"
  by (auto simp: save_def well_formed_def Let_def split: option.splits if_splits)

lemma well_formed_load:
  assumes "well_formed s" "load s arg = Inr s'"
  shows "well_formed s'"
proof -
  obtain img where s': "s' = s\<lparr>memoryDB := spread (memoryDB s) (parse_snapshot img)\<rparr>"
    using load_Inr [OF assms(2)] by blast
  have c: "canonical (memoryDB s)" using assms(1) by (simp add: well_formed_def)
  have "canonical tbl" if "map_of (memoryDB s') t = Some tbl" for t tbl
  proof (cases "map_of (parse_snapshot img) t")
    case None
    with that have "map_of (memoryDB s) t = Some tbl"
      by (simp add: s' map_of_spread [OF c canonical_parse_snapshot])
    with assms(1) show ?thesis by (simp add: well_formed_iff)
  next
    case (Some x)
    with that have "x = tbl"
      by (simp add: s' map_of_spread [OF c canonical_parse_snapshot])
    with Some show ?thesis
      by (auto simp: map_of_parse_snapshot canonical_from_entries)
  qed
  then show ?thesis
    by (simp add: well_formed_iff s' canonical_spread)
qed

lemma well_formed_constructor: "well_formed (new_MemoryDB arg files)"
proof (cases arg)
  case None
  then show ?thesis by (simp add: new_MemoryDB_def well_formed_new)
next
  case (Some f)
  let ?s = "\<lparr>memoryDB = [], filename = arg, fs = files\<rparr>"
  show ?thesis
  proof (cases "load ?s None")
    case (Inl e)
    then show ?thesis by (simp add: new_MemoryDB_def Some well_formed_new Let_def)
  next
    case (Inr s')
    have "well_formed s'" using well_formed_new Inr by (rule well_formed_load)
    with Inr show ?thesis by (simp add: new_MemoryDB_def Some well_formed_new Let_def)
  qed
qed

lemma well_formed_upsert_each:
  "well_formed s \<Longrightarrow> upsert_each s reqs = Inr s' \<Longrightarrow> well_formed s'"
proof (induction reqs arbitrary: s)
  case Nil
  then show ?case by simp
next
  case (Cons req reqs)
  let ?s1 = "write_through (s\<lparr>memoryDB := upsert_db (memoryDB s) req\<rparr>)"
  have "well_formed ?s1" using Cons.prems(1) by (simp add: well_formed_upsert_db)
  moreover have "upsert_each ?s1 reqs = Inr s'"
    using Cons.prems(2) by (simp only: upsert_each_Cons)
  ultimately show ?case by (rule Cons.IH)
qed

lemma well_formed_batchUpsert:
  assumes "well_formed s" "batchUpsert s reqs = Inr (ids, s')"
  shows "well_formed s'"
proof -
  obtain s1 where s1: "upsert_each s reqs = Inr s1"
    using batch_loop_eq [of s reqs "[]"] by auto
  have "well_formed s1" using assms(1) s1 by (rule well_formed_upsert_each)
  moreover have "s' = write_through s1"
    using assms(2) batchUpsert_eq [OF s1] by simp
  ultimately show ?thesis by simp
qed

end
